theory Spec2Isabelle
  imports Main "HOL-Library.Log_Nat"
begin

section \<open>Strings\<close>

text \<open>
  A Python \<open>str\<close> is a sequence of code points. The model reads a \<open>char\<close> as the
  code point of the same number, so a \<open>string\<close> is a Python string over the
  Latin-1 block (code points 0 to 255). That block holds every character the accent
  tables of the two normalizers name. \<open>str.lower\<close>, \<open>str.strip\<close>, \<open>str.isspace\<close>
  and the regular-expression class \<open>\w\<close> are written out for it.
\<close>

definition code :: "char \<Rightarrow> nat" where
  "code c = of_char c"

text \<open>\<open>str.isspace\<close> on one character: TAB to CR, FS to US, space, NEL, NBSP.\<close>

definition is_space :: "char \<Rightarrow> bool" where
  "is_space c = (let n = code c in
     (9 \<le> n \<and> n \<le> 13) \<or> (28 \<le> n \<and> n \<le> 32) \<or> n = 133 \<or> n = 160)"

text \<open>\<open>str.strip()\<close>: whitespace is removed at both ends.\<close>

definition strip :: "string \<Rightarrow> string" where
  "strip s = rev (dropWhile is_space (rev (dropWhile is_space s)))"

text \<open>\<open>str.strip(chars)\<close> with an explicit set of characters.\<close>

definition strip_chars :: "string \<Rightarrow> string \<Rightarrow> string" where
  "strip_chars cs s =
     rev (dropWhile (\<lambda>c. c \<in> set cs) (rev (dropWhile (\<lambda>c. c \<in> set cs) s)))"

text \<open>
  \<open>str.lower()\<close>: A to Z, and the Latin-1 capitals U+00C0 to U+00DE except the
  multiplication sign U+00D7, move up by 32; every other character stays.
\<close>

definition lower_char :: "char \<Rightarrow> char" where
  "lower_char c = (let n = code c in
     if (65 \<le> n \<and> n \<le> 90) \<or> (192 \<le> n \<and> n \<le> 214) \<or> (216 \<le> n \<and> n \<le> 222)
     then char_of (n + 32) else c)"

definition lower :: "string \<Rightarrow> string" where
  "lower s = map lower_char s"

text \<open>\<open>str.replace(old, new)\<close> for one-character \<open>old\<close> and \<open>new\<close>.\<close>

definition replace :: "char \<Rightarrow> char \<Rightarrow> string \<Rightarrow> string" where
  "replace old new s = map (\<lambda>c. if c = old then new else c) s"

text \<open>The character class \<open>[a-z]\<close>.\<close>

definition is_az :: "char \<Rightarrow> bool" where
  "is_az c = (97 \<le> code c \<and> code c \<le> 122)"

text \<open>
  The class \<open>\w\<close> of a \<open>str\<close> pattern: the underscore and every character that is
  alphabetic, decimal, digit or numeric. In Latin-1 these are the ASCII letters and digits,
  the ordinal indicators, the micro sign, the superscript digits, the three vulgar
  fractions and the letters from U+00C0 on, the two arithmetic signs excepted.
\<close>

definition is_word_char :: "char \<Rightarrow> bool" where
  "is_word_char c = (let n = code c in
     (48 \<le> n \<and> n \<le> 57) \<or> (65 \<le> n \<and> n \<le> 90) \<or> n = 95 \<or> (97 \<le> n \<and> n \<le> 122) \<or>
     n = 170 \<or> n = 178 \<or> n = 179 \<or> n = 181 \<or> n = 185 \<or> n = 186 \<or>
     (188 \<le> n \<and> n \<le> 190) \<or> (192 \<le> n \<and> n \<le> 214) \<or> (216 \<le> n \<and> n \<le> 246) \<or>
     (248 \<le> n \<and> n \<le> 255))"

section \<open>The two normalizers\<close>

text \<open>
  \<open>merge_dictionaries.normalize_word\<close>: lowercase, trim, fold the seven lowercase
  accented vowels. Nothing else is removed.
\<close>

definition merge_normalize_word :: "string \<Rightarrow> string" where
  "merge_normalize_word word =
     (let word = strip (lower word);
          word = replace (CHR 0xEC) CHR ''i'' (replace (CHR 0xE9) CHR ''e''
                   (replace (CHR 0xE8) CHR ''e'' (replace (CHR 0xE0) CHR ''a'' word)));
          word = replace (CHR 0xF9) CHR ''u'' (replace (CHR 0xF3) CHR ''o''
                   (replace (CHR 0xF2) CHR ''o'' word))
      in word)"

text \<open>
  \<open>extract_ngrams.normalize_word\<close>: the same three steps, then the same table for the
  capitals, then \<open>re.sub(r'[^a-z]', '', word)\<close>.
\<close>

definition ngram_normalize_word :: "string \<Rightarrow> string" where
  "ngram_normalize_word word =
     (let word = strip (lower word);
          word = replace (CHR 0xEC) CHR ''i'' (replace (CHR 0xE9) CHR ''e''
                   (replace (CHR 0xE8) CHR ''e'' (replace (CHR 0xE0) CHR ''a'' word)));
          word = replace (CHR 0xF9) CHR ''u'' (replace (CHR 0xF3) CHR ''o''
                   (replace (CHR 0xF2) CHR ''o'' word));
          word = replace (CHR 0xCC) CHR ''i'' (replace (CHR 0xC9) CHR ''e''
                   (replace (CHR 0xC8) CHR ''e'' (replace (CHR 0xC0) CHR ''a'' word)));
          word = replace (CHR 0xD9) CHR ''u'' (replace (CHR 0xD3) CHR ''o''
                   (replace (CHR 0xD2) CHR ''o'' word))
      in filter is_az word)"

text \<open>
  The normalizer as the specification words it, to compare the two above with: trim,
  lowercase, fold the table of accented vowels (a-grave to a; e-grave and e-acute to e;
  i-grave to i; o-grave and o-acute to o; u-grave to u; the capitals alike), then strip
  every character outside a to z.
\<close>

definition spec_fold_accent :: "char \<Rightarrow> char" where
  "spec_fold_accent c =
     (if c = CHR 0xE0 \<or> c = CHR 0xC0 then CHR ''a''
      else if c = CHR 0xE8 \<or> c = CHR 0xE9 \<or> c = CHR 0xC8 \<or> c = CHR 0xC9 then CHR ''e''
      else if c = CHR 0xEC \<or> c = CHR 0xCC then CHR ''i''
      else if c = CHR 0xF2 \<or> c = CHR 0xF3 \<or> c = CHR 0xD2 \<or> c = CHR 0xD3 then CHR ''o''
      else if c = CHR 0xF9 \<or> c = CHR 0xD9 then CHR ''u''
      else c)"

definition spec_normalize :: "string \<Rightarrow> string" where
  "spec_normalize token = filter is_az (map spec_fold_accent (lower (strip token)))"

section \<open>N-gram extraction\<close>

text \<open>
  \<open>re.findall(r'\b\w+\b', text)\<close> returns the maximal runs of word characters, left
  to right. \<open>cur\<close> is the run being read.
\<close>

fun findall_words :: "string \<Rightarrow> string \<Rightarrow> string list" where
  "findall_words cur [] = (if cur = [] then [] else [cur])"
| "findall_words cur (c # cs) =
     (if is_word_char c then findall_words (cur @ [c]) cs
      else (if cur = [] then [] else [cur]) @ findall_words [] cs)"

definition extract_words :: "string \<Rightarrow> string list" where
  "extract_words text =
     (let words = findall_words [] text;
          normalized = map ngram_normalize_word (filter (\<lambda>w. w \<noteq> []) words)
      in filter (\<lambda>w. length w > 1) normalized)"

text \<open>
  A Python \<open>dict\<close> keeps its keys in insertion order: an association list with distinct
  keys. \<open>upd_default k d g\<close> is \<open>t[k] = g(t[k])\<close> on a \<open>defaultdict\<close> whose missing
  entries read as \<open>d\<close>: an existing key is updated in place, a new one goes to the end.
\<close>

fun upd_default :: "'k \<Rightarrow> 'v \<Rightarrow> ('v \<Rightarrow> 'v) \<Rightarrow> ('k \<times> 'v) list \<Rightarrow> ('k \<times> 'v) list" where
  "upd_default k d g [] = [(k, g d)]"
| "upd_default k d g ((k', v) # kvs) =
     (if k = k' then (k', g v) # kvs else (k', v) # upd_default k d g kvs)"

type_synonym bigram_table = "(string \<times> (string \<times> int) list) list"
type_synonym trigram_table = "(string \<times> (string \<times> (string \<times> int) list) list) list"

text \<open>\<open>bigrams[word1][word2] += 1\<close> and \<open>trigrams[word1][word2][word3] += 1\<close>.\<close>

definition incr_bigram :: "string \<Rightarrow> string \<Rightarrow> bigram_table \<Rightarrow> bigram_table" where
  "incr_bigram word1 word2 = upd_default word1 [] (upd_default word2 0 (\<lambda>n. n + 1))"

definition incr_trigram :: "string \<Rightarrow> string \<Rightarrow> string \<Rightarrow> trigram_table \<Rightarrow> trigram_table" where
  "incr_trigram word1 word2 word3 =
     upd_default word1 [] (upd_default word2 [] (upd_default word3 0 (\<lambda>n. n + 1)))"

text \<open>The loop \<open>for i in range(len(words) - 1)\<close> over adjacent pairs.\<close>

fun bigram_loop :: "string list \<Rightarrow> bigram_table \<Rightarrow> bigram_table" where
  "bigram_loop (word1 # word2 # ws) bigrams =
     bigram_loop (word2 # ws)
       (if word1 \<noteq> [] \<and> word2 \<noteq> [] then incr_bigram word1 word2 bigrams else bigrams)"
| "bigram_loop _ bigrams = bigrams"

text \<open>The loop \<open>for i in range(len(words) - 2)\<close> over adjacent triples.\<close>

fun trigram_loop :: "string list \<Rightarrow> trigram_table \<Rightarrow> trigram_table" where
  "trigram_loop (word1 # word2 # word3 # ws) trigrams =
     trigram_loop (word2 # word3 # ws)
       (if word1 \<noteq> [] \<and> word2 \<noteq> [] \<and> word3 \<noteq> []
        then incr_trigram word1 word2 word3 trigrams else trigrams)"
| "trigram_loop _ trigrams = trigrams"

text \<open>The body of \<open>for line in f\<close>, and the loop itself.\<close>

definition count_line :: "string \<Rightarrow> bigram_table \<times> trigram_table \<Rightarrow> bigram_table \<times> trigram_table" where
  "count_line line tabs =
     (let words = extract_words line
      in (bigram_loop words (fst tabs), trigram_loop words (snd tabs)))"

fun count_lines :: "string list \<Rightarrow> bigram_table \<times> trigram_table \<Rightarrow> bigram_table \<times> trigram_table" where
  "count_lines [] tabs = tabs"
| "count_lines (line # lines) tabs = count_lines lines (count_line line tabs)"

text \<open>The filter that runs when \<open>min_freq > 1\<close>: rare counts go, then empty maps.\<close>

definition filter_counts :: "int \<Rightarrow> (string \<times> int) list \<Rightarrow> (string \<times> int) list" where
  "filter_counts min_freq m = filter (\<lambda>(word, freq). freq \<ge> min_freq) m"

definition filter_bigrams :: "int \<Rightarrow> bigram_table \<Rightarrow> bigram_table" where
  "filter_bigrams min_freq bigrams =
     filter (\<lambda>(word1, filtered_map). filtered_map \<noteq> [])
       (map (\<lambda>(word1, word2_map). (word1, filter_counts min_freq word2_map)) bigrams)"

definition filter_trigrams :: "int \<Rightarrow> trigram_table \<Rightarrow> trigram_table" where
  "filter_trigrams min_freq trigrams =
     filter (\<lambda>(word1, word2_filtered). word2_filtered \<noteq> [])
       (map (\<lambda>(word1, word2_map). (word1, filter_bigrams min_freq word2_map)) trigrams)"

text \<open>
  The input file of \<open>extract_ngrams\<close>: absent, unreadable, or its lines (each with its
  line end). The first two end the process with exit status 1.
\<close>

datatype text_file = FileNotFound | ReadError | Lines "string list"

datatype error =
  SystemExit nat | KeyError | IndexError | OverflowError | ValueError | ZeroDivisionError

definition extract_ngrams :: "text_file \<Rightarrow> int \<Rightarrow> error + bigram_table \<times> trigram_table" where
  "extract_ngrams input_file min_freq =
     (case input_file of
        FileNotFound \<Rightarrow> Inl (SystemExit 1)
      | ReadError \<Rightarrow> Inl (SystemExit 1)
      | Lines lines \<Rightarrow>
          (let (bigrams, trigrams) = count_lines lines ([], [])
           in if min_freq > 1
              then Inr (filter_bigrams min_freq bigrams, filter_trigrams min_freq trigrams)
              else Inr (bigrams, trigrams)))"

section \<open>Floating point\<close>

text \<open>
  A Python \<open>float\<close> is an IEEE 754 binary64 number: a rational with a 53-bit
  significand, an infinity, or not-a-number. Every operation computes the exact rational
  result and rounds it to the nearest representable number, ties to the even significand
  (\<open>fl\<close>). The sign of a zero is not kept: no operation of the program reads it.
\<close>

datatype pyfloat = Finite rat | PInf | NInf | NaN

definition pow2 :: "int \<Rightarrow> rat" where
  "pow2 e = (if 0 \<le> e then 2 ^ nat e else 1 / 2 ^ nat (- e))"

text \<open>\<open>ilog2 x\<close> is the integer part of the binary logarithm of a positive \<open>x\<close>.\<close>

definition ilog2 :: "rat \<Rightarrow> int" where
  "ilog2 x = (if 1 \<le> x then bitlen \<lfloor>x\<rfloor> - 1 else - bitlen (\<lceil>1 / x\<rceil> - 1))"

definition round_half_even :: "rat \<Rightarrow> int" where
  "round_half_even x =
     (let n = \<lfloor>x\<rfloor>; r = x - of_int n
      in if r < 1 / 2 then n else if 1 / 2 < r then n + 1 else if even n then n else n + 1)"

definition fl :: "rat \<Rightarrow> pyfloat" where
  "fl x =
     (if x = 0 then Finite 0
      else let a = \<bar>x\<bar>;
               e = max (ilog2 a) (- 1022) - 52;
               r = of_int (round_half_even (a / pow2 e)) * pow2 e
           in if pow2 1024 \<le> r then (if 0 < x then PInf else NInf)
              else Finite (if 0 < x then r else - r))"

text \<open>Conversion of an \<open>int\<close> operand: too large a value raises \<open>OverflowError\<close>.\<close>

definition float_of_int :: "int \<Rightarrow> error + pyfloat" where
  "float_of_int n = (case fl (of_int n) of Finite r \<Rightarrow> Inr (Finite r) | _ \<Rightarrow> Inl OverflowError)"

fun fmul :: "pyfloat \<Rightarrow> pyfloat \<Rightarrow> pyfloat" where
  "fmul (Finite a) (Finite b) = fl (a * b)"
| "fmul NaN _ = NaN"
| "fmul _ NaN = NaN"
| "fmul (Finite a) PInf = (if a = 0 then NaN else if 0 < a then PInf else NInf)"
| "fmul (Finite a) NInf = (if a = 0 then NaN else if 0 < a then NInf else PInf)"
| "fmul PInf (Finite b) = (if b = 0 then NaN else if 0 < b then PInf else NInf)"
| "fmul NInf (Finite b) = (if b = 0 then NaN else if 0 < b then NInf else PInf)"
| "fmul PInf PInf = PInf"
| "fmul NInf NInf = PInf"
| "fmul PInf NInf = NInf"
| "fmul NInf PInf = NInf"

fun fadd :: "pyfloat \<Rightarrow> pyfloat \<Rightarrow> pyfloat" where
  "fadd (Finite a) (Finite b) = fl (a + b)"
| "fadd NaN _ = NaN"
| "fadd _ NaN = NaN"
| "fadd PInf NInf = NaN"
| "fadd NInf PInf = NaN"
| "fadd PInf _ = PInf"
| "fadd NInf _ = NInf"
| "fadd _ PInf = PInf"
| "fadd _ NInf = NInf"

text \<open>Division of floats; a zero divisor raises \<open>ZeroDivisionError\<close>.\<close>

fun fdiv :: "pyfloat \<Rightarrow> pyfloat \<Rightarrow> error + pyfloat" where
  "fdiv (Finite a) (Finite b) = (if b = 0 then Inl ZeroDivisionError else Inr (fl (a / b)))"
| "fdiv NaN (Finite b) = (if b = 0 then Inl ZeroDivisionError else Inr NaN)"
| "fdiv PInf (Finite b) =
     (if b = 0 then Inl ZeroDivisionError else Inr (if 0 < b then PInf else NInf))"
| "fdiv NInf (Finite b) =
     (if b = 0 then Inl ZeroDivisionError else Inr (if 0 < b then NInf else PInf))"
| "fdiv _ NaN = Inr NaN"
| "fdiv (Finite a) _ = Inr (Finite 0)"
| "fdiv _ _ = Inr NaN"

text \<open>\<open>int(x)\<close> of a float: truncation towards zero.\<close>

definition int_of_float :: "pyfloat \<Rightarrow> error + int" where
  "int_of_float x =
     (case x of
        Finite r \<Rightarrow> Inr (if 0 \<le> r then \<lfloor>r\<rfloor> else \<lceil>r\<rceil>)
      | PInf \<Rightarrow> Inl OverflowError
      | NInf \<Rightarrow> Inl OverflowError
      | NaN \<Rightarrow> Inl ValueError)"

section \<open>Dictionary entries and the merge strategies\<close>

text \<open>
  An entry is a JSON object read for its keys \<open>'w'\<close> and \<open>'f'\<close>; either key may be
  absent. The word is a string and the frequency an unbounded integer.
\<close>

record entry =
  w :: "string option"
  f :: "int option"

text \<open>\<open>e.get('f', 0)\<close>, \<open>e.get('w', '')\<close>, and the subscripts that raise.\<close>

definition get_f :: "entry \<Rightarrow> int" where
  "get_f e = (case f e of None \<Rightarrow> 0 | Some v \<Rightarrow> v)"

definition get_w :: "entry \<Rightarrow> string" where
  "get_w e = (case w e of None \<Rightarrow> [] | Some v \<Rightarrow> v)"

definition item_w :: "entry \<Rightarrow> error + string" where
  "item_w e = (case w e of None \<Rightarrow> Inl KeyError | Some v \<Rightarrow> Inr v)"

definition item_f :: "entry \<Rightarrow> error + int" where
  "item_f e = (case f e of None \<Rightarrow> Inl KeyError | Some v \<Rightarrow> Inr v)"

text \<open>
  \<open>max(entries, key=...)\<close> on a non-empty list: the running maximum is replaced only by
  a strictly greater key, so the first of several maximal entries is returned.
\<close>

fun max_by :: "('a \<Rightarrow> int) \<Rightarrow> 'a \<Rightarrow> 'a list \<Rightarrow> 'a" where
  "max_by key best [] = best"
| "max_by key best (x # xs) = max_by key (if key best < key x then x else best) xs"

definition merge_max_frequency :: "entry list \<Rightarrow> error + entry option" where
  "merge_max_frequency entries =
     (case entries of
        [] \<Rightarrow> Inr None
      | e # es \<Rightarrow>
          (let max_entry = max_by get_f e es
           in case item_w max_entry of
                Inl err \<Rightarrow> Inl err
              | Inr word \<Rightarrow>
                  (case item_f max_entry of
                     Inl err \<Rightarrow> Inl err
                   | Inr freq \<Rightarrow> Inr (Some \<lparr>w = Some word, f = Some freq\<rparr>))))"

definition merge_sum_frequency :: "entry list \<Rightarrow> error + entry option" where
  "merge_sum_frequency entries =
     (case entries of
        [] \<Rightarrow> Inr None
      | e # es \<Rightarrow>
          (let total_freq = sum_list (map get_f entries)
           in case item_w e of
                Inl err \<Rightarrow> Inl err
              | Inr word \<Rightarrow> Inr (Some \<lparr>w = Some word, f = Some total_freq\<rparr>)))"

text \<open>\<open>//\<close> on integers is floor division, as \<open>div\<close> on \<open>int\<close> is.\<close>

definition merge_avg_frequency :: "entry list \<Rightarrow> error + entry option" where
  "merge_avg_frequency entries =
     (case entries of
        [] \<Rightarrow> Inr None
      | e # es \<Rightarrow>
          (let avg_freq = sum_list (map get_f entries) div int (length entries)
           in case item_w e of
                Inl err \<Rightarrow> Inl err
              | Inr word \<Rightarrow> Inr (Some \<lparr>w = Some word, f = Some avg_freq\<rparr>)))"

text \<open>
  The default weights: \<open>[0.6] + [0.4 / (n - 1)] * (n - 1)\<close> for \<open>n > 1\<close> entries,
  \<open>[1.0]\<close> for one.
\<close>

definition default_weights :: "nat \<Rightarrow> error + pyfloat list" where
  "default_weights n =
     (if 1 < n
      then (case float_of_int (int n - 1) of
              Inl err \<Rightarrow> Inl err
            | Inr d \<Rightarrow>
                (case fdiv (fl (4 / 10)) d of
                   Inl err \<Rightarrow> Inl err
                 | Inr x \<Rightarrow> Inr (fl (6 / 10) # replicate (n - 1) x)))
      else Inr [Finite 1])"

text \<open>
  The generator \<open>e.get('f', 0) * w for e, w in zip(entries, weights)\<close>: each integer is
  converted to a float and multiplied; the first conversion that overflows ends it.
\<close>

fun weighted_terms :: "(entry \<times> pyfloat) list \<Rightarrow> error + pyfloat list" where
  "weighted_terms [] = Inr []"
| "weighted_terms ((e, wt) # rest) =
     (case float_of_int (get_f e) of
        Inl err \<Rightarrow> Inl err
      | Inr x \<Rightarrow>
          (case weighted_terms rest of
             Inl err \<Rightarrow> Inl err
           | Inr xs \<Rightarrow> Inr (fmul x wt # xs)))"

text \<open>
  \<open>sum\<close> starts from the integer 0 and adds from left to right, each addition rounded.
  (Interpreters that carry a compensation term in \<open>sum\<close> agree with this whenever every
  partial sum is exact.)
\<close>

definition float_sum :: "pyfloat list \<Rightarrow> pyfloat" where
  "float_sum xs = foldl fadd (Finite 0) xs"

definition merge_weighted_frequency :: "entry list \<Rightarrow> pyfloat list option \<Rightarrow> error + entry option" where
  "merge_weighted_frequency entries weights =
     (case entries of
        [] \<Rightarrow> Inr None
      | e # es \<Rightarrow>
          (case (case weights of None \<Rightarrow> default_weights (length entries) | Some ws \<Rightarrow> Inr ws) of
             Inl err \<Rightarrow> Inl err
           | Inr ws \<Rightarrow>
               (case weighted_terms (zip entries ws) of
                  Inl err \<Rightarrow> Inl err
                | Inr terms \<Rightarrow>
                    (case item_w e of
                       Inl err \<Rightarrow> Inl err
                     | Inr word \<Rightarrow>
                         (case int_of_float (float_sum terms) of
                            Inl err \<Rightarrow> Inl err
                          | Inr freq \<Rightarrow> Inr (Some \<lparr>w = Some word, f = Some freq\<rparr>))))))"

section \<open>The merge run\<close>

text \<open>
  What \<open>json.load\<close> finds in an input file: nothing readable, a document that is not a
  list, or a list of entries. \<open>load_dictionary\<close> turns the first two into the empty list.
\<close>

datatype json_file = LoadError | NotAList | EntryList "entry list"

definition load_dictionary :: "json_file \<Rightarrow> entry list" where
  "load_dictionary json_file =
     (case json_file of LoadError \<Rightarrow> [] | NotAList \<Rightarrow> [] | EntryList data \<Rightarrow> data)"

text \<open>The loop \<open>for input_file in input_files: all_entries.extend(...)\<close>.\<close>

fun load_all :: "json_file list \<Rightarrow> entry list \<Rightarrow> entry list" where
  "load_all [] all_entries = all_entries"
| "load_all (input_file # input_files) all_entries =
     load_all input_files (all_entries @ load_dictionary input_file)"

text \<open>
  The grouping loop. \<open>word_groups\<close> is a \<open>defaultdict(list)\<close>; an entry whose word is
  absent or the empty string is passed over, every other entry is appended to the group
  of its normalized word.
\<close>

fun group_entries :: "entry list \<Rightarrow> (string \<times> entry list) list \<Rightarrow> (string \<times> entry list) list" where
  "group_entries [] word_groups = word_groups"
| "group_entries (e # all_entries) word_groups =
     (let word = get_w e
      in if word = [] then group_entries all_entries word_groups
         else group_entries all_entries
                (upd_default (merge_normalize_word word) [] (\<lambda>g. g @ [e]) word_groups))"

text \<open>\<open>merge_strategies.get(strategy, merge_max_frequency)\<close>.\<close>

definition merge_strategies :: "string \<Rightarrow> entry list \<Rightarrow> error + entry option" where
  "merge_strategies strategy =
     (if strategy = ''max'' then merge_max_frequency
      else if strategy = ''sum'' then merge_sum_frequency
      else if strategy = ''avg'' then merge_avg_frequency
      else if strategy = ''weighted'' then (\<lambda>entries. merge_weighted_frequency entries None)
      else merge_max_frequency)"

text \<open>
  The loop over \<open>word_groups.items()\<close>: a group of several entries goes through the
  strategy, a single entry is taken as it is; the result is kept when it is there and its
  frequency (0 when the key is absent) reaches \<open>min_frequency\<close>.
\<close>

fun resolve_groups ::
  "(entry list \<Rightarrow> error + entry option) \<Rightarrow> int \<Rightarrow> (string \<times> entry list) list \<Rightarrow>
   entry list \<Rightarrow> error + entry list" where
  "resolve_groups merge_func min_frequency [] merged_entries = Inr merged_entries"
| "resolve_groups merge_func min_frequency ((normalized, entries) # word_groups) merged_entries =
     (case (if 1 < length entries then merge_func entries
            else (case entries of [] \<Rightarrow> Inl IndexError | e # _ \<Rightarrow> Inr (Some e))) of
        Inl err \<Rightarrow> Inl err
      | Inr merged \<Rightarrow>
          resolve_groups merge_func min_frequency word_groups
            (case merged of
               None \<Rightarrow> merged_entries
             | Some m \<Rightarrow>
                 if min_frequency \<le> get_f m then merged_entries @ [m] else merged_entries))"

text \<open>
  \<open>merged_entries.sort(key=lambda e: e.get('f', 0), reverse=True)\<close>: a stable sort,
  greatest frequency first, equal frequencies in their former order.
\<close>

definition sort_by_frequency :: "entry list \<Rightarrow> entry list" where
  "sort_by_frequency merged_entries = sort_key (\<lambda>e. - get_f e) merged_entries"

text \<open>
  The result of a run: the value returned and the list written to the output file, if
  one was written. \<open>writable\<close> says whether opening and writing the output file succeeds.
  After the write the ten first entries are printed with \<open>entry['w']\<close> and
  \<open>entry['f']\<close>; a missing key there is caught by the same handler as a failed write, and
  the run returns \<open>False\<close> with the file already written.
\<close>

record run =
  returned :: bool
  written :: "entry list option"

definition merge_dictionaries :: "json_file list \<Rightarrow> bool \<Rightarrow> string \<Rightarrow> int \<Rightarrow> error + run" where
  "merge_dictionaries input_files writable strategy min_frequency =
     (let all_entries = load_all input_files []
      in if all_entries = [] then Inr \<lparr>returned = False, written = None\<rparr>
         else
           (let word_groups = group_entries all_entries [];
                merge_func = merge_strategies strategy
            in case resolve_groups merge_func min_frequency word_groups [] of
                 Inl err \<Rightarrow> Inl err
               | Inr merged_entries \<Rightarrow>
                   (let merged_entries = sort_by_frequency merged_entries
                    in if \<not> writable then Inr \<lparr>returned = False, written = None\<rparr>
                       else if list_all (\<lambda>e. w e \<noteq> None \<and> f e \<noteq> None) (take 10 merged_entries)
                       then Inr \<lparr>returned = True, written = Some merged_entries\<rparr>
                       else Inr \<lparr>returned = False, written = Some merged_entries\<rparr>)))"

text \<open>
  The command line of the merge tool, as \<open>argparse\<close> receives it: the input paths
  (\<open>None\<close> for a path where no file exists), whether \<open>--output\<close> was given, and the
  texts given for \<open>--strategy\<close> and \<open>--min-freq\<close>, if any.
\<close>

record merge_args =
  inputs :: "json_file option list"
  output_given :: bool
  strategy_arg :: "string option"
  min_freq_arg :: "string option"

definition strategy_choices :: "string list" where
  "strategy_choices = [''max'', ''sum'', ''avg'', ''weighted'']"

section \<open>Reading integers and splitting lines\<close>

definition is_digit :: "char \<Rightarrow> bool" where
  "is_digit c = (48 \<le> code c \<and> code c \<le> 57)"

definition digit_value :: "char \<Rightarrow> int" where
  "digit_value c = int (code c) - 48"

text \<open>
  The digits of an integer literal after its first digit: a single underscore may stand
  between two digits.
\<close>

fun parse_digits :: "int \<Rightarrow> string \<Rightarrow> int option" where
  "parse_digits acc [] = Some acc"
| "parse_digits acc [c] = (if is_digit c then Some (acc * 10 + digit_value c) else None)"
| "parse_digits acc (c # d # cs) =
     (if is_digit c then parse_digits (acc * 10 + digit_value c) (d # cs)
      else if c = CHR ''_'' \<and> is_digit d then parse_digits (acc * 10 + digit_value d) cs
      else None)"

text \<open>
  The whitespace that \<open>int\<close> drops around a number: TAB to CR and the space, and the
  spaces beyond ASCII (NEL and NBSP). Unlike \<open>str.strip\<close> it keeps the separators FS
  to US.
\<close>

definition is_int_space :: "char \<Rightarrow> bool" where
  "is_int_space c = (let n = code c in (9 \<le> n \<and> n \<le> 13) \<or> n = 32 \<or> n = 133 \<or> n = 160)"

text \<open>
  \<open>int(s)\<close> for a string: surrounding whitespace is dropped, a sign may come first,
  then at least one digit. \<open>None\<close> stands for \<open>ValueError\<close>. (The interpreter's optional
  cap on the number of digits is not modelled.)
\<close>

definition py_int :: "string \<Rightarrow> int option" where
  "py_int s =
     (let t = rev (dropWhile is_int_space (rev (dropWhile is_int_space s)));
          neg = (t \<noteq> [] \<and> hd t = CHR ''-'');
          body = (if t \<noteq> [] \<and> (hd t = CHR ''-'' \<or> hd t = CHR ''+'') then tl t else t)
      in case body of
           [] \<Rightarrow> None
         | c # cs \<Rightarrow>
             if is_digit c
             then map_option (\<lambda>n. if neg then - n else n) (parse_digits (digit_value c) cs)
             else None)"

text \<open>\<open>str.split()\<close>: the maximal runs of characters that are not whitespace.\<close>

fun split_ws :: "string \<Rightarrow> string \<Rightarrow> string list" where
  "split_ws cur [] = (if cur = [] then [] else [cur])"
| "split_ws cur (c # cs) =
     (if is_space c then (if cur = [] then [] else [cur]) @ split_ws [] cs
      else split_ws (cur @ [c]) cs)"

definition split :: "string \<Rightarrow> string list" where
  "split s = split_ws [] s"

text \<open>\<open>str.split(sep)\<close> for a one-character separator: empty fields are kept.\<close>

fun split_on :: "char \<Rightarrow> string \<Rightarrow> string \<Rightarrow> string list" where
  "split_on sep cur [] = [cur]"
| "split_on sep cur (c # cs) =
     (if c = sep then cur # split_on sep [] cs else split_on sep (cur @ [c]) cs)"

text \<open>\<open>' '.join(parts)\<close>.\<close>

fun join_space :: "string list \<Rightarrow> string" where
  "join_space [] = []"
| "join_space [p] = p"
| "join_space (p # q # ps) = p @ '' '' @ join_space (q # ps)"

section \<open>Converting frequency lists\<close>

text \<open>
  The body of the loop of \<open>convert_opensubtitles_to_json\<close> for one line: \<open>None\<close> is
  \<open>continue\<close>, \<open>Some\<close> is the entry appended.
\<close>

definition opensubtitles_record :: "string \<Rightarrow> entry option" where
  "opensubtitles_record line =
     (let line = strip line
      in if line = [] then None
         else let parts = split line
              in if length parts < 2 then None
                 else let word = join_space (butlast parts)
                      in case py_int (last parts) of
                           None \<Rightarrow> None
                         | Some frequency \<Rightarrow> Some \<lparr>w = Some word, f = Some frequency\<rparr>)"

fun opensubtitles_loop :: "string list \<Rightarrow> entry list \<Rightarrow> entry list" where
  "opensubtitles_loop [] entries = entries"
| "opensubtitles_loop (line # lines) entries =
     opensubtitles_loop lines
       (case opensubtitles_record line of None \<Rightarrow> entries | Some e \<Rightarrow> entries @ [e])"

definition convert_opensubtitles_to_json :: "text_file \<Rightarrow> bool \<Rightarrow> run" where
  "convert_opensubtitles_to_json txt_file writable =
     (case txt_file of
        Lines lines \<Rightarrow>
          (let entries = opensubtitles_loop lines []
           in if writable then \<lparr>returned = True, written = Some entries\<rparr>
              else \<lparr>returned = False, written = None\<rparr>)
      | _ \<Rightarrow> \<lparr>returned = False, written = None\<rparr>)"

text \<open>
  The same for \<open>convert_wikipedia_to_json\<close>. The fields are those between commas,
  or, when there is no comma, those between whitespace; \<open>CHR 0x22\<close> is the double
  quote.
\<close>

definition wikipedia_parts :: "string \<Rightarrow> string list" where
  "wikipedia_parts line =
     (let parts = split_on CHR '','' [] line
      in if length parts < 2 then split line else parts)"

definition wikipedia_record :: "string \<Rightarrow> entry option" where
  "wikipedia_record line =
     (let line = strip line
      in if line = [] then None
         else case wikipedia_parts line of
                p0 # p1 # _ \<Rightarrow>
                  (let word = strip_chars [CHR 0x22] (strip p0)
                   in case py_int (strip_chars [CHR 0x22] (strip p1)) of
                        None \<Rightarrow> None
                      | Some frequency \<Rightarrow> Some \<lparr>w = Some word, f = Some frequency\<rparr>)
              | _ \<Rightarrow> None)"

text \<open>The loop leaves at the first line read when \<open>len(entries) >= limit\<close>.\<close>

fun wikipedia_loop :: "int \<Rightarrow> string list \<Rightarrow> entry list \<Rightarrow> entry list" where
  "wikipedia_loop limit [] entries = entries"
| "wikipedia_loop limit (line # lines) entries =
     (if limit \<le> int (length entries) then entries
      else wikipedia_loop limit lines
             (case wikipedia_record line of None \<Rightarrow> entries | Some e \<Rightarrow> entries @ [e]))"

text \<open>
  The first line is passed over when, trimmed, it starts with \<open>word\<close>; otherwise the
  file is read again from its start.
\<close>

definition skip_header :: "string list \<Rightarrow> string list" where
  "skip_header lines =
     (case lines of
        [] \<Rightarrow> []
      | first_line # rest \<Rightarrow> if take 4 (strip first_line) = ''word'' then rest else lines)"

definition convert_wikipedia_to_json :: "text_file \<Rightarrow> int \<Rightarrow> bool \<Rightarrow> run" where
  "convert_wikipedia_to_json csv_file limit writable =
     (case csv_file of
        Lines lines \<Rightarrow>
          (let entries = wikipedia_loop limit (skip_header lines) []
           in if writable then \<lparr>returned = True, written = Some entries\<rparr>
              else \<lparr>returned = False, written = None\<rparr>)
      | _ \<Rightarrow> \<lparr>returned = False, written = None\<rparr>)"

section \<open>The command-line entry point of the merge tool\<close>

text \<open>
  \<open>main\<close>: the argument parser leaves with status 2 on a missing input or output, on a
  strategy outside its choices and on a \<open>--min-freq\<close> that \<open>int\<close> rejects; an input
  path without a file gives status 1; otherwise the status says whether the merge run
  returned \<open>True\<close>. The result pairs the exit status with the list written, if any.
\<close>

definition main :: "merge_args \<Rightarrow> bool \<Rightarrow> error + nat \<times> entry list option" where
  "main args writable =
     (if inputs args = [] \<or> \<not> output_given args then Inr (2, None)
      else case (case strategy_arg args of
                   None \<Rightarrow> Some ''max''
                 | Some s \<Rightarrow> if s \<in> set strategy_choices then Some s else None) of
             None \<Rightarrow> Inr (2, None)
           | Some strategy \<Rightarrow>
               (case (case min_freq_arg args of None \<Rightarrow> Some 1 | Some s \<Rightarrow> py_int s) of
                  None \<Rightarrow> Inr (2, None)
                | Some min_freq \<Rightarrow>
                    if list_ex (\<lambda>input_file. input_file = None) (inputs args) then Inr (1, None)
                    else (case merge_dictionaries (map the (inputs args)) writable strategy min_freq of
                            Inl err \<Rightarrow> Inl err
                          | Inr r \<Rightarrow> Inr (if returned r then 0 else 1, written r))))"

section \<open>Tables as dictionaries, and their element-wise sum\<close>

text \<open>
  Two Python dictionaries are equal when they hold the same keys with equal values,
  whatever the insertion order: the tables are compared as maps.
\<close>

definition count_dict :: "(string \<times> int) list \<Rightarrow> (string \<rightharpoonup> int)" where
  "count_dict m = map_of m"

definition bigram_dict :: "bigram_table \<Rightarrow> (string \<rightharpoonup> (string \<rightharpoonup> int))" where
  "bigram_dict t = (\<lambda>word1. map_option count_dict (map_of t word1))"

definition trigram_dict :: "trigram_table \<Rightarrow> (string \<rightharpoonup> (string \<rightharpoonup> (string \<rightharpoonup> int)))" where
  "trigram_dict t = (\<lambda>word1. map_option bigram_dict (map_of t word1))"

text \<open>
  The element-wise sum of two tables, as the specification names it (the repository has
  no code for it): a key of one table only keeps its value, a key of both gets the sum
  of the two values, taken level by level.
\<close>

definition sum_dicts :: "('v \<Rightarrow> 'v \<Rightarrow> 'v) \<Rightarrow> ('k \<rightharpoonup> 'v) \<Rightarrow> ('k \<rightharpoonup> 'v) \<Rightarrow> ('k \<rightharpoonup> 'v)" where
  "sum_dicts add m1 m2 =
     (\<lambda>k. case m1 k of
             None \<Rightarrow> m2 k
           | Some x \<Rightarrow> (case m2 k of None \<Rightarrow> Some x | Some y \<Rightarrow> Some (add x y)))"

definition sum_counts :: "(string \<rightharpoonup> int) \<Rightarrow> (string \<rightharpoonup> int) \<Rightarrow> (string \<rightharpoonup> int)" where
  "sum_counts = sum_dicts (+)"

definition sum_bigram_tables ::
  "(string \<rightharpoonup> (string \<rightharpoonup> int)) \<Rightarrow> (string \<rightharpoonup> (string \<rightharpoonup> int)) \<Rightarrow>
   (string \<rightharpoonup> (string \<rightharpoonup> int))" where
  "sum_bigram_tables = sum_dicts sum_counts"

definition sum_trigram_tables ::
  "(string \<rightharpoonup> (string \<rightharpoonup> (string \<rightharpoonup> int))) \<Rightarrow> (string \<rightharpoonup> (string \<rightharpoonup> (string \<rightharpoonup> int))) \<Rightarrow>
   (string \<rightharpoonup> (string \<rightharpoonup> (string \<rightharpoonup> int)))" where
  "sum_trigram_tables = sum_dicts sum_bigram_tables"

text \<open>
  The dictionary reading of \<open>upd_default\<close>: the value under \<open>k\<close>, or the default,
  is replaced by its image.
\<close>

definition upd_dict :: "'k \<Rightarrow> 'v \<Rightarrow> ('v \<Rightarrow> 'v) \<Rightarrow> ('k \<rightharpoonup> 'v) \<Rightarrow> ('k \<rightharpoonup> 'v)" where
  "upd_dict k d g m = m(k \<mapsto> g (case m k of None \<Rightarrow> d | Some v \<Rightarrow> v))"

section \<open>Groups as selections\<close>

text \<open>
  The key under which the grouping loop files an entry, and the entries of a list that
  the loop files under a given key, in their order.
\<close>

definition group_key :: "entry \<Rightarrow> string" where
  "group_key e = merge_normalize_word (get_w e)"

definition members :: "string \<Rightarrow> entry list \<Rightarrow> entry list" where
  "members k es = filter (\<lambda>e. get_w e \<noteq> [] \<and> group_key e = k) es"

section \<open>Entries without a frequency\<close>

text \<open>
  \<open>with_frequency e\<close> is \<open>e\<close> with an absent frequency written out as 0; it is the
  entry that the claims about absent frequencies compare \<open>e\<close> with.
\<close>

definition with_frequency :: "entry \<Rightarrow> entry" where
  "with_frequency e = e\<lparr>f := Some (get_f e)\<rparr>"

definition with_frequencies :: "json_file \<Rightarrow> json_file" where
  "with_frequencies json_file =
     (case json_file of EntryList data \<Rightarrow> EntryList (map with_frequency data) | other \<Rightarrow> other)"

section \<open>Properties of n-gram extraction\<close>

lemma extract_words_scenario:
  "extract_words ''the cat sat the cat ran'' =
     [''the'', ''cat'', ''sat'', ''the'', ''cat'', ''ran'']"
  by code_simp

text \<open>
  C6. With \<open>min_freq = 1\<close> the single line \<open>the cat sat the cat ran\<close> gives exactly the
  bigram counts the-cat 2, cat-sat 1, cat-ran 1, sat-the 1 and exactly the trigram counts
  the-cat-sat 1, the-cat-ran 1, cat-sat-the 1, sat-the-cat 1, in the insertion order of
  the dictionaries.
\<close>

theorem extract_ngrams_scenario:
  "extract_ngrams (Lines [''the cat sat the cat ran'']) 1 =
     Inr ([(''the'', [(''cat'', 2)]),
           (''cat'', [(''sat'', 1), (''ran'', 1)]),
           (''sat'', [(''the'', 1)])],
          [(''the'', [(''cat'', [(''sat'', 1), (''ran'', 1)])]),
           (''cat'', [(''sat'', [(''the'', 1)])]),
           (''sat'', [(''the'', [(''cat'', 1)])])])"
  by code_simp

section \<open>Sharded extraction\<close>

lemma map_of_upd_default:
  "map_of (upd_default k d g t) = upd_dict k d g (map_of t)"
  by (induction t) (auto simp: upd_dict_def)

lemma view_upd_default:
  assumes "\<And>v. V (g v) = G (V v)"
  shows "(\<lambda>x. map_option V (map_of (upd_default k d g t) x)) =
         upd_dict k (V d) G (\<lambda>x. map_option V (map_of t x))"
  by (rule ext) (simp add: map_of_upd_default upd_dict_def assms split: option.split)

lemma sum_dicts_empty [simp]:
  "sum_dicts add m Map.empty = m" "sum_dicts add Map.empty m = m"
  by (rule ext, simp add: sum_dicts_def split: option.split)+

lemma sum_dicts_upd_dict:
  assumes "\<And>x y. add x (g y) = g (add x y)" and "\<And>x. add x d = x"
  shows "sum_dicts add m (upd_dict k d g n) = upd_dict k d g (sum_dicts add m n)"
  by (rule ext) (simp add: sum_dicts_def upd_dict_def assms split: option.split)

lemma sum_dicts_assoc:
  assumes "\<And>x y z. add (add x y) z = add x (add y z)"
  shows "sum_dicts add (sum_dicts add a b) c = sum_dicts add a (sum_dicts add b c)"
  by (rule ext) (simp add: sum_dicts_def assms split: option.split)

lemma sum_counts_assoc:
  "sum_counts (sum_counts a b) c = sum_counts a (sum_counts b c)"
  unfolding sum_counts_def by (rule sum_dicts_assoc) simp

lemma sum_bigram_tables_assoc:
  "sum_bigram_tables (sum_bigram_tables a b) c = sum_bigram_tables a (sum_bigram_tables b c)"
  unfolding sum_bigram_tables_def by (rule sum_dicts_assoc) (rule sum_counts_assoc)

lemma sum_trigram_tables_assoc:
  "sum_trigram_tables (sum_trigram_tables a b) c = sum_trigram_tables a (sum_trigram_tables b c)"
  unfolding sum_trigram_tables_def by (rule sum_dicts_assoc) (rule sum_bigram_tables_assoc)

lemma sum_counts_incr:
  "sum_counts m (upd_dict k 0 (\<lambda>n. n + 1) n) = upd_dict k 0 (\<lambda>n. n + 1) (sum_counts m n)"
  unfolding sum_counts_def by (rule sum_dicts_upd_dict) simp_all

lemma sum_counts_empty [simp]: "sum_counts m Map.empty = m"
  by (simp add: sum_counts_def)

lemma sum_bigram_tables_empty [simp]: "sum_bigram_tables m Map.empty = m"
  by (simp add: sum_bigram_tables_def)

lemma sum_trigram_tables_empty [simp]: "sum_trigram_tables m Map.empty = m"
  by (simp add: sum_trigram_tables_def)

lemma sum_counts_incr_empty:
  "sum_counts m (upd_dict k 0 (\<lambda>n. n + 1) Map.empty) = upd_dict k 0 (\<lambda>n. n + 1) m"
  using sum_counts_incr [of m k Map.empty] by simp

lemma sum_bigram_tables_incr:
  "sum_bigram_tables m (upd_dict a Map.empty (upd_dict b 0 (\<lambda>n. n + 1)) n) =
   upd_dict a Map.empty (upd_dict b 0 (\<lambda>n. n + 1)) (sum_bigram_tables m n)"
  unfolding sum_bigram_tables_def
  by (rule sum_dicts_upd_dict) (rule sum_counts_incr, rule sum_counts_empty)

lemma sum_bigram_tables_incr_empty:
  "sum_bigram_tables m (upd_dict a Map.empty (upd_dict b 0 (\<lambda>n. n + 1)) Map.empty) =
   upd_dict a Map.empty (upd_dict b 0 (\<lambda>n. n + 1)) m"
  using sum_bigram_tables_incr [of m a b Map.empty] by simp

lemma sum_trigram_tables_incr:
  "sum_trigram_tables m
     (upd_dict a Map.empty (upd_dict b Map.empty (upd_dict c 0 (\<lambda>n. n + 1))) n) =
   upd_dict a Map.empty (upd_dict b Map.empty (upd_dict c 0 (\<lambda>n. n + 1)))
     (sum_trigram_tables m n)"
  unfolding sum_trigram_tables_def
  by (rule sum_dicts_upd_dict) (rule sum_bigram_tables_incr, rule sum_bigram_tables_empty)

lemma count_dict_incr:
  "count_dict (upd_default k 0 (\<lambda>n. n + 1) m) = upd_dict k 0 (\<lambda>n. n + 1) (count_dict m)"
  by (simp add: count_dict_def map_of_upd_default)

lemma bigram_dict_upd:
  "bigram_dict (upd_default a [] (upd_default b 0 (\<lambda>n. n + 1)) t) =
   upd_dict a Map.empty (upd_dict b 0 (\<lambda>n. n + 1)) (bigram_dict t)"
proof -
  have "count_dict [] = Map.empty" by (simp add: count_dict_def)
  with view_upd_default [of count_dict "upd_default b 0 (\<lambda>n. n + 1)"
      "upd_dict b 0 (\<lambda>n. n + 1)" a "[]" t, OF count_dict_incr]
  show ?thesis by (simp add: bigram_dict_def)
qed

lemma bigram_dict_Nil [simp]: "bigram_dict [] = Map.empty"
  by (rule ext) (simp add: bigram_dict_def)

lemma trigram_dict_Nil [simp]: "trigram_dict [] = Map.empty"
  by (rule ext) (simp add: trigram_dict_def)

lemma trigram_dict_upd:
  "trigram_dict (upd_default a [] (upd_default b [] (upd_default c 0 (\<lambda>n. n + 1))) t) =
   upd_dict a Map.empty (upd_dict b Map.empty (upd_dict c 0 (\<lambda>n. n + 1))) (trigram_dict t)"
  using view_upd_default [of bigram_dict "upd_default b [] (upd_default c 0 (\<lambda>n. n + 1))"
      "upd_dict b Map.empty (upd_dict c 0 (\<lambda>n. n + 1))" a "[]" t, OF bigram_dict_upd]
  by (simp add: trigram_dict_def)

lemma sum_trigram_tables_incr_empty:
  "sum_trigram_tables m
     (upd_dict a Map.empty (upd_dict b Map.empty (upd_dict c 0 (\<lambda>n. n + 1))) Map.empty) =
   upd_dict a Map.empty (upd_dict b Map.empty (upd_dict c 0 (\<lambda>n. n + 1))) m"
  using sum_trigram_tables_incr [of m a b c Map.empty] by simp

lemma incr_bigram_additive:
  "bigram_dict (incr_bigram a b t) =
   sum_bigram_tables (bigram_dict t) (bigram_dict (incr_bigram a b []))"
  unfolding incr_bigram_def bigram_dict_upd bigram_dict_Nil sum_bigram_tables_incr_empty ..

lemma incr_trigram_additive:
  "trigram_dict (incr_trigram a b c t) =
   sum_trigram_tables (trigram_dict t) (trigram_dict (incr_trigram a b c []))"
  unfolding incr_trigram_def trigram_dict_upd trigram_dict_Nil sum_trigram_tables_incr_empty ..

lemma bigram_loop_additive:
  "bigram_dict (bigram_loop ws t) =
   sum_bigram_tables (bigram_dict t) (bigram_dict (bigram_loop ws []))"
proof (induction ws arbitrary: t)
  case Nil
  then show ?case by (simp add: sum_bigram_tables_def)
next
  case (Cons x xs)
  show ?case
  proof (cases xs)
    case Nil
    then show ?thesis by (simp add: sum_bigram_tables_def)
  next
    case (Cons y ys)
    show ?thesis
    proof (cases "x \<noteq> [] \<and> y \<noteq> []")
      case True
      have "bigram_dict (bigram_loop (x # xs) t) =
            sum_bigram_tables (bigram_dict (incr_bigram x y t)) (bigram_dict (bigram_loop xs []))"
        using True Cons Cons.IH [of "incr_bigram x y t"] by simp
      also have "\<dots> = sum_bigram_tables (bigram_dict t)
            (sum_bigram_tables (bigram_dict (incr_bigram x y [])) (bigram_dict (bigram_loop xs [])))"
        by (simp add: incr_bigram_additive [of x y t] sum_bigram_tables_assoc)
      also have "sum_bigram_tables (bigram_dict (incr_bigram x y [])) (bigram_dict (bigram_loop xs [])) =
            bigram_dict (bigram_loop (x # xs) [])"
        using True Cons Cons.IH [of "incr_bigram x y []"] by simp
      finally show ?thesis .
    next
      case False
      then show ?thesis using Cons Cons.IH [of t] by auto
    qed
  qed
qed

lemma trigram_loop_additive:
  "trigram_dict (trigram_loop ws t) =
   sum_trigram_tables (trigram_dict t) (trigram_dict (trigram_loop ws []))"
proof (induction ws arbitrary: t)
  case Nil
  then show ?case by (simp add: sum_trigram_tables_def)
next
  case (Cons x xs)
  show ?case
  proof (cases "\<exists>y z zs. xs = y # z # zs")
    case False
    then have "trigram_loop (x # xs) u = u" for u
      by (cases xs; cases "tl xs") auto
    then show ?thesis by (simp add: sum_trigram_tables_def)
  next
    case True
    then obtain y z zs where xs: "xs = y # z # zs" by blast
    show ?thesis
    proof (cases "x \<noteq> [] \<and> y \<noteq> [] \<and> z \<noteq> []")
      case True
      have "trigram_dict (trigram_loop (x # xs) t) =
            sum_trigram_tables (trigram_dict (incr_trigram x y z t)) (trigram_dict (trigram_loop xs []))"
        using True xs Cons.IH [of "incr_trigram x y z t"] by simp
      also have "\<dots> = sum_trigram_tables (trigram_dict t)
            (sum_trigram_tables (trigram_dict (incr_trigram x y z [])) (trigram_dict (trigram_loop xs [])))"
        by (simp add: incr_trigram_additive [of x y z t] sum_trigram_tables_assoc)
      also have "sum_trigram_tables (trigram_dict (incr_trigram x y z [])) (trigram_dict (trigram_loop xs [])) =
            trigram_dict (trigram_loop (x # xs) [])"
        using True xs Cons.IH [of "incr_trigram x y z []"] by simp
      finally show ?thesis .
    next
      case False
      then show ?thesis using xs Cons.IH [of t] by auto
    qed
  qed
qed

lemma count_lines_append:
  "count_lines (l1 @ l2) tabs = count_lines l2 (count_lines l1 tabs)"
  by (induction l1 arbitrary: tabs) simp_all

lemma count_lines_additive:
  "bigram_dict (fst (count_lines ls tabs)) =
     sum_bigram_tables (bigram_dict (fst tabs)) (bigram_dict (fst (count_lines ls ([], [])))) \<and>
   trigram_dict (snd (count_lines ls tabs)) =
     sum_trigram_tables (trigram_dict (snd tabs)) (trigram_dict (snd (count_lines ls ([], []))))"
proof (induction ls arbitrary: tabs)
  case Nil
  then show ?case by (simp add: sum_bigram_tables_def sum_trigram_tables_def)
next
  case (Cons l ls)
  let ?ws = "extract_words l"
  have b: "bigram_dict (fst (count_lines (l # ls) tabs)) =
        sum_bigram_tables (bigram_dict (fst tabs)) (bigram_dict (fst (count_lines (l # ls) ([], []))))"
  proof -
    have "bigram_dict (fst (count_lines (l # ls) tabs)) =
          sum_bigram_tables (bigram_dict (bigram_loop ?ws (fst tabs)))
            (bigram_dict (fst (count_lines ls ([], []))))"
      using Cons.IH [of "count_line l tabs"] by (simp add: count_line_def Let_def)
    also have "\<dots> = sum_bigram_tables (bigram_dict (fst tabs))
          (sum_bigram_tables (bigram_dict (bigram_loop ?ws []))
            (bigram_dict (fst (count_lines ls ([], [])))))"
      by (simp add: bigram_loop_additive [of ?ws "fst tabs"] sum_bigram_tables_assoc)
    also have "sum_bigram_tables (bigram_dict (bigram_loop ?ws []))
            (bigram_dict (fst (count_lines ls ([], [])))) =
          bigram_dict (fst (count_lines (l # ls) ([], [])))"
      using Cons.IH [of "count_line l ([], [])"] by (simp add: count_line_def Let_def)
    finally show ?thesis .
  qed
  have t: "trigram_dict (snd (count_lines (l # ls) tabs)) =
        sum_trigram_tables (trigram_dict (snd tabs)) (trigram_dict (snd (count_lines (l # ls) ([], []))))"
  proof -
    have "trigram_dict (snd (count_lines (l # ls) tabs)) =
          sum_trigram_tables (trigram_dict (trigram_loop ?ws (snd tabs)))
            (trigram_dict (snd (count_lines ls ([], []))))"
      using Cons.IH [of "count_line l tabs"] by (simp add: count_line_def Let_def)
    also have "\<dots> = sum_trigram_tables (trigram_dict (snd tabs))
          (sum_trigram_tables (trigram_dict (trigram_loop ?ws []))
            (trigram_dict (snd (count_lines ls ([], [])))))"
      by (simp add: trigram_loop_additive [of ?ws "snd tabs"] sum_trigram_tables_assoc)
    also have "sum_trigram_tables (trigram_dict (trigram_loop ?ws []))
            (trigram_dict (snd (count_lines ls ([], [])))) =
          trigram_dict (snd (count_lines (l # ls) ([], [])))"
      using Cons.IH [of "count_line l ([], [])"] by (simp add: count_line_def Let_def)
    finally show ?thesis .
  qed
  from b t show ?case by blast
qed

lemma extract_ngrams_no_filter:
  "extract_ngrams (Lines ls) 1 =
     Inr (fst (count_lines ls ([], [])), snd (count_lines ls ([], [])))"
  by (simp add: extract_ngrams_def split: prod.split)

text \<open>
  C7. For every corpus split at a line boundary into \<open>l1\<close> and \<open>l2\<close>, extraction with
  \<open>min_freq = 1\<close> succeeds on both shards and on the whole, and the bigram table and the
  trigram table of the whole are, as dictionaries, the element-wise sums of the tables of
  the two shards.
\<close>

theorem sharded_extraction_sums:
  "\<exists>b1 t1 b2 t2 b t.
     extract_ngrams (Lines l1) 1 = Inr (b1, t1) \<and>
     extract_ngrams (Lines l2) 1 = Inr (b2, t2) \<and>
     extract_ngrams (Lines (l1 @ l2)) 1 = Inr (b, t) \<and>
     bigram_dict b = sum_bigram_tables (bigram_dict b1) (bigram_dict b2) \<and>
     trigram_dict t = sum_trigram_tables (trigram_dict t1) (trigram_dict t2)"
proof -
  obtain b1 t1 where c1: "count_lines l1 ([], []) = (b1, t1)"
    by (cases "count_lines l1 ([], [])")
  obtain b2 t2 where c2: "count_lines l2 ([], []) = (b2, t2)"
    by (cases "count_lines l2 ([], [])")
  obtain b t where c: "count_lines l2 (b1, t1) = (b, t)"
    by (cases "count_lines l2 (b1, t1)")
  have "bigram_dict b = sum_bigram_tables (bigram_dict b1) (bigram_dict b2)"
    and "trigram_dict t = sum_trigram_tables (trigram_dict t1) (trigram_dict t2)"
    using count_lines_additive [of l2 "(b1, t1)"] by (simp_all add: c c2)
  moreover have "extract_ngrams (Lines (l1 @ l2)) 1 = Inr (b, t)"
    by (simp add: extract_ngrams_no_filter count_lines_append c1 c)
  moreover have "extract_ngrams (Lines l1) 1 = Inr (b1, t1)"
    and "extract_ngrams (Lines l2) 1 = Inr (b2, t2)"
    by (simp_all add: extract_ngrams_no_filter c1 c2)
  ultimately show ?thesis by blast
qed

section \<open>Properties of the normalizers\<close>

lemma code_lower_char: "\<not> (192 \<le> code (lower_char c) \<and> code (lower_char c) \<le> 222 \<and> code (lower_char c) \<noteq> 215)"
proof -
  have "code c < 256" unfolding code_def by (rule nat_of_char_less_256)
  then show ?thesis
    by (auto simp: lower_char_def Let_def code_def)
qed

lemma replace_absent: "old \<notin> set s \<Longrightarrow> replace old new s = s"
  by (induction s) (auto simp: replace_def)

lemma in_set_replace: "x \<in> set (replace old new s) \<Longrightarrow> x = new \<or> x \<in> set s"
  by (auto simp: replace_def split: if_splits)

lemma set_strip: "set (strip s) \<subseteq> set s"
proof -
  have "set (strip s) \<subseteq> set (dropWhile is_space s)"
    unfolding strip_def using set_dropWhileD by fastforce
  then show ?thesis using set_dropWhileD by fastforce
qed

lemma capital_not_lowered:
  assumes "192 \<le> code u" "code u \<le> 222" "code u \<noteq> 215"
  shows "u \<notin> set (strip (lower s))"
proof
  assume "u \<in> set (strip (lower s))"
  then have "u \<in> set (lower s)" using set_strip by blast
  then obtain c where "u = lower_char c" by (auto simp: lower_def)
  with assms code_lower_char [of c] show False by simp
qed

lemma is_space_lower_char: "is_space (lower_char c) = is_space c"
proof -
  have "code c < 256" unfolding code_def by (rule nat_of_char_less_256)
  then show ?thesis
    by (auto simp: lower_char_def is_space_def Let_def code_def)
qed

lemma strip_lower: "strip (lower s) = lower (strip s)"
proof -
  have c: "is_space \<circ> lower_char = is_space"
    by (rule ext) (simp add: is_space_lower_char)
  have a: "dropWhile is_space (map lower_char xs) = map lower_char (dropWhile is_space xs)" for xs
    by (simp add: dropWhile_map c)
  show ?thesis
    by (simp only: strip_def lower_def a rev_map)
qed

lemma replace_append:
  "replace old new (xs @ ys) = replace old new xs @ replace old new ys"
  by (simp add: replace_def)

lemma fold_chain_char:
  assumes "\<not> (192 \<le> code c \<and> code c \<le> 222 \<and> code c \<noteq> 215)"
  shows "replace (CHR 0xF9) CHR ''u'' (replace (CHR 0xF3) CHR ''o''
           (replace (CHR 0xF2) CHR ''o'' (replace (CHR 0xEC) CHR ''i'' (replace (CHR 0xE9) CHR ''e''
           (replace (CHR 0xE8) CHR ''e'' (replace (CHR 0xE0) CHR ''a'' [c])))))) =
         [spec_fold_accent c]"
proof -
  consider "c = CHR 0xE0" | "c = CHR 0xE8" | "c = CHR 0xE9" | "c = CHR 0xEC"
    | "c = CHR 0xF2" | "c = CHR 0xF3" | "c = CHR 0xF9"
    | "c \<noteq> CHR 0xE0" "c \<noteq> CHR 0xE8" "c \<noteq> CHR 0xE9" "c \<noteq> CHR 0xEC"
      "c \<noteq> CHR 0xF2" "c \<noteq> CHR 0xF3" "c \<noteq> CHR 0xF9"
    by blast
  then show ?thesis
  proof cases
    case 1 then show ?thesis by (simp add: replace_def spec_fold_accent_def)
  next
    case 2 then show ?thesis by (simp add: replace_def spec_fold_accent_def)
  next
    case 3 then show ?thesis by (simp add: replace_def spec_fold_accent_def)
  next
    case 4 then show ?thesis by (simp add: replace_def spec_fold_accent_def)
  next
    case 5 then show ?thesis by (simp add: replace_def spec_fold_accent_def)
  next
    case 6 then show ?thesis by (simp add: replace_def spec_fold_accent_def)
  next
    case 7 then show ?thesis by (simp add: replace_def spec_fold_accent_def)
  next
    case 8
    have "c \<noteq> CHR 0xC0" "c \<noteq> CHR 0xC8" "c \<noteq> CHR 0xC9" "c \<noteq> CHR 0xCC"
      "c \<noteq> CHR 0xD2" "c \<noteq> CHR 0xD3" "c \<noteq> CHR 0xD9"
      using assms by (auto simp: code_def)
    with 8 show ?thesis by (simp add: replace_def spec_fold_accent_def)
  qed
qed

lemma fold_chain_lowercase:
  assumes "\<forall>u \<in> set t. \<not> (192 \<le> code u \<and> code u \<le> 222 \<and> code u \<noteq> 215)"
  shows "replace (CHR 0xF9) CHR ''u'' (replace (CHR 0xF3) CHR ''o''
           (replace (CHR 0xF2) CHR ''o'' (replace (CHR 0xEC) CHR ''i'' (replace (CHR 0xE9) CHR ''e''
           (replace (CHR 0xE8) CHR ''e'' (replace (CHR 0xE0) CHR ''a'' t)))))) =
         map spec_fold_accent t"
  using assms
proof (induction t)
  case Nil
  then show ?case by (simp add: replace_def)
next
  case (Cons c t)
  have c: "\<not> (192 \<le> code c \<and> code c \<le> 222 \<and> code c \<noteq> 215)"
    and t: "\<forall>u \<in> set t. \<not> (192 \<le> code u \<and> code u \<le> 222 \<and> code u \<noteq> 215)"
    using Cons.prems by simp_all
  let ?chain = "\<lambda>x. replace (CHR 0xF9) CHR ''u'' (replace (CHR 0xF3) CHR ''o''
           (replace (CHR 0xF2) CHR ''o'' (replace (CHR 0xEC) CHR ''i'' (replace (CHR 0xE9) CHR ''e''
           (replace (CHR 0xE8) CHR ''e'' (replace (CHR 0xE0) CHR ''a'' x))))))"
  have "?chain (c # t) = ?chain ([c] @ t)" by simp
  also have "\<dots> = ?chain [c] @ ?chain t" by (simp only: replace_append)
  also have "\<dots> = [spec_fold_accent c] @ map spec_fold_accent t"
    by (simp only: fold_chain_char [OF c] Cons.IH [OF t])
  finally show ?case by simp
qed

text \<open>
  C4, as the code has it. The normalizer of the n-gram extractor is the normalizer of the
  specification: it trims, lowercases, folds the table of accented vowels, capitals
  included, and then strips every character outside a to z; so it returns only characters
  from a to z, for every input, the empty string included. The normalizer of the merge
  tool trims, lowercases and folds the same table, and strips nothing: the key of the
  extractor is the key of the merge tool with every character outside a to z removed.
\<close>

theorem normalizers_related:
  "list_all is_az (ngram_normalize_word s) \<and>
   ngram_normalize_word s = filter is_az (merge_normalize_word s) \<and>
   ngram_normalize_word [] = [] \<and> merge_normalize_word [] = [] \<and>
   ngram_normalize_word s = spec_normalize s \<and>
   merge_normalize_word s = map spec_fold_accent (lower (strip s)) \<and>
   ngram_normalize_word ('' Caf'' @ [CHR 0xC9] @ ''! '') = ''cafe'' \<and>
   merge_normalize_word ('' Caf'' @ [CHR 0xC9] @ ''! '') = ''cafe!''"
proof -
  define t where "t = strip (lower s)"
  define r where "r = replace (CHR 0xF9) CHR ''u'' (replace (CHR 0xF3) CHR ''o''
                   (replace (CHR 0xF2) CHR ''o'' (replace (CHR 0xEC) CHR ''i'' (replace (CHR 0xE9) CHR ''e''
                   (replace (CHR 0xE8) CHR ''e'' (replace (CHR 0xE0) CHR ''a'' t))))))"
  have sub: "set r \<subseteq> {CHR ''a'', CHR ''e'', CHR ''i'', CHR ''o'', CHR ''u''} \<union> set t"
    unfolding r_def by (auto dest!: in_set_replace)
  have no: "u \<notin> set r" if "192 \<le> code u" "code u \<le> 222" "code u \<noteq> 215" for u
  proof
    assume "u \<in> set r"
    with sub have "u \<in> {CHR ''a'', CHR ''e'', CHR ''i'', CHR ''o'', CHR ''u''} \<or> u \<in> set t" by blast
    then show False
    proof
      assume "u \<in> {CHR ''a'', CHR ''e'', CHR ''i'', CHR ''o'', CHR ''u''}"
      with that show False by (auto simp: code_def)
    next
      assume "u \<in> set t"
      with capital_not_lowered [OF that, of s] show False by (simp add: t_def)
    qed
  qed
  have id: "replace (CHR 0xD9) CHR ''u'' (replace (CHR 0xD3) CHR ''o''
                   (replace (CHR 0xD2) CHR ''o'' (replace (CHR 0xCC) CHR ''i'' (replace (CHR 0xC9) CHR ''e''
                   (replace (CHR 0xC8) CHR ''e'' (replace (CHR 0xC0) CHR ''a'' r)))))) = r"
    by (simp add: replace_absent no code_def)
  have m: "merge_normalize_word s = r"
    by (simp add: merge_normalize_word_def r_def t_def)
  have n: "ngram_normalize_word s = filter is_az r"
    unfolding ngram_normalize_word_def Let_def using id by (simp add: r_def t_def)
  have e: "ngram_normalize_word [] = []" "merge_normalize_word [] = []"
    "ngram_normalize_word ('' Caf'' @ [CHR 0xC9] @ ''! '') = ''cafe''"
    "merge_normalize_word ('' Caf'' @ [CHR 0xC9] @ ''! '') = ''cafe!''"
    by code_simp+
  have "\<forall>u \<in> set t. \<not> (192 \<le> code u \<and> code u \<le> 222 \<and> code u \<noteq> 215)"
    using capital_not_lowered [of _ s] unfolding t_def by blast
  then have "r = map spec_fold_accent t"
    unfolding r_def by (rule fold_chain_lowercase)
  then have f: "r = map spec_fold_accent (lower (strip s))"
    by (simp add: t_def strip_lower)
  have sp: "ngram_normalize_word s = spec_normalize s"
    by (simp add: n f spec_normalize_def)
  have mg: "merge_normalize_word s = map spec_fold_accent (lower (strip s))"
    by (simp add: m f)
  have "list_all is_az (ngram_normalize_word s)"
    and "ngram_normalize_word s = filter is_az (merge_normalize_word s)"
    by (simp_all add: m n list_all_iff)
  with e sp mg show ?thesis by blast
qed

text \<open>
  C4 as stated fails for the normalizer of the merge tool: a hyphen stays in the key.
\<close>

theorem merge_normalize_keeps_hyphen:
  "merge_normalize_word ''E-Mail'' = ''e-mail'' \<and>
   \<not> list_all is_az (merge_normalize_word ''E-Mail'')"
  by code_simp

section \<open>The weighted scenario\<close>

lemma fl_pos:
  assumes "0 < x" and "ilog2 x = k" and "- 1022 \<le> k"
    and "round_half_even (x / pow2 (k - 52)) = m"
    and "rat_of_int m * pow2 (k - 52) < pow2 1024"
  shows "fl x = Finite (rat_of_int m * pow2 (k - 52))"
proof -
  have a: "\<bar>x\<bar> = x" and nz: "x \<noteq> 0"
    using assms(1) by simp_all
  have e: "max (ilog2 x) (- 1022) = k"
    using assms(2,3) by simp
  have "fl x = (if pow2 1024 \<le> rat_of_int m * pow2 (k - 52) then PInf
                else Finite (rat_of_int m * pow2 (k - 52)))"
    unfolding fl_def Let_def a e assms(4) using assms(1) nz by simp
  with assms(5) show ?thesis by simp
qed

lemma fl_three_fifths: "fl (3 / 5) = Finite (5404319552844595 / 9007199254740992)"
proof -
  have "fl (3 / 5) = Finite (rat_of_int 5404319552844595 * pow2 (- 1 - 52))"
  proof (rule fl_pos)
    show "ilog2 (3 / 5) = - 1" by code_simp
    show "round_half_even ((3 / 5) / pow2 (- 1 - 52)) = 5404319552844595" by code_simp
    show "rat_of_int 5404319552844595 * pow2 (- 1 - 52) < pow2 1024" by (simp add: pow2_def)
  qed simp_all
  then show ?thesis by (simp add: pow2_def)
qed

lemma fl_two_fifths: "fl (2 / 5) = Finite (3602879701896397 / 9007199254740992)"
proof -
  have "fl (2 / 5) = Finite (rat_of_int 7205759403792794 * pow2 (- 2 - 52))"
  proof (rule fl_pos)
    show "ilog2 (2 / 5) = - 2" by code_simp
    show "round_half_even ((2 / 5) / pow2 (- 2 - 52)) = 7205759403792794" by code_simp
    show "rat_of_int 7205759403792794 * pow2 (- 2 - 52) < pow2 1024" by (simp add: pow2_def)
  qed simp_all
  then show ?thesis by (simp add: pow2_def)
qed

lemma fl_one: "fl (1) = Finite (1)"
proof -
  have "fl (1) = Finite (rat_of_int 4503599627370496 * pow2 (0 - 52))"
  proof (rule fl_pos)
    show "ilog2 (1) = 0" by code_simp
    show "round_half_even ((1) / pow2 (0 - 52)) = 4503599627370496" by code_simp
    show "rat_of_int 4503599627370496 * pow2 (0 - 52) < pow2 1024" by (simp add: pow2_def)
  qed simp_all
  then show ?thesis by (simp add: pow2_def)
qed

lemma fl_five: "fl (5) = Finite (5)"
proof -
  have "fl (5) = Finite (rat_of_int 5629499534213120 * pow2 (2 - 52))"
  proof (rule fl_pos)
    show "ilog2 (5) = 2" by code_simp
    show "round_half_even ((5) / pow2 (2 - 52)) = 5629499534213120" by code_simp
    show "rat_of_int 5629499534213120 * pow2 (2 - 52) < pow2 1024" by (simp add: pow2_def)
  qed simp_all
  then show ?thesis by (simp add: pow2_def)
qed

lemma fl_six: "fl (6) = Finite (6)"
proof -
  have "fl (6) = Finite (rat_of_int 6755399441055744 * pow2 (2 - 52))"
  proof (rule fl_pos)
    show "ilog2 (6) = 2" by code_simp
    show "round_half_even ((6) / pow2 (2 - 52)) = 6755399441055744" by code_simp
    show "rat_of_int 6755399441055744 * pow2 (2 - 52) < pow2 1024" by (simp add: pow2_def)
  qed simp_all
  then show ?thesis by (simp add: pow2_def)
qed

lemma fl_eight: "fl (8) = Finite (8)"
proof -
  have "fl (8) = Finite (rat_of_int 4503599627370496 * pow2 (3 - 52))"
  proof (rule fl_pos)
    show "ilog2 (8) = 3" by code_simp
    show "round_half_even ((8) / pow2 (3 - 52)) = 4503599627370496" by code_simp
    show "rat_of_int 4503599627370496 * pow2 (3 - 52) < pow2 1024" by (simp add: pow2_def)
  qed simp_all
  then show ?thesis by (simp add: pow2_def)
qed

lemma fl_ten: "fl (10) = Finite (10)"
proof -
  have "fl (10) = Finite (rat_of_int 5629499534213120 * pow2 (3 - 52))"
  proof (rule fl_pos)
    show "ilog2 (10) = 3" by code_simp
    show "round_half_even ((10) / pow2 (3 - 52)) = 5629499534213120" by code_simp
    show "rat_of_int 5629499534213120 * pow2 (3 - 52) < pow2 1024" by (simp add: pow2_def)
  qed simp_all
  then show ?thesis by (simp add: pow2_def)
qed

lemma fl_weight_quotient: "fl (3602879701896397 / 9007199254740992) = Finite (3602879701896397 / 9007199254740992)"
proof -
  have "fl (3602879701896397 / 9007199254740992) = Finite (rat_of_int 7205759403792794 * pow2 (- 2 - 52))"
  proof (rule fl_pos)
    show "ilog2 (3602879701896397 / 9007199254740992) = - 2" by code_simp
    show "round_half_even ((3602879701896397 / 9007199254740992) / pow2 (- 2 - 52)) = 7205759403792794" by code_simp
    show "rat_of_int 7205759403792794 * pow2 (- 2 - 52) < pow2 1024" by (simp add: pow2_def)
  qed simp_all
  then show ?thesis by (simp add: pow2_def)
qed

lemma fl_first_product: "fl (27021597764222975 / 4503599627370496) = Finite (6)"
proof -
  have "fl (27021597764222975 / 4503599627370496) = Finite (rat_of_int 6755399441055744 * pow2 (2 - 52))"
  proof (rule fl_pos)
    show "ilog2 (27021597764222975 / 4503599627370496) = 2" by code_simp
    show "round_half_even ((27021597764222975 / 4503599627370496) / pow2 (2 - 52)) = 6755399441055744" by code_simp
    show "rat_of_int 6755399441055744 * pow2 (2 - 52) < pow2 1024" by (simp add: pow2_def)
  qed simp_all
  then show ?thesis by (simp add: pow2_def)
qed

lemma fl_second_product: "fl (18014398509481985 / 9007199254740992) = Finite (2)"
proof -
  have "fl (18014398509481985 / 9007199254740992) = Finite (rat_of_int 4503599627370496 * pow2 (1 - 52))"
  proof (rule fl_pos)
    show "ilog2 (18014398509481985 / 9007199254740992) = 1" by code_simp
    show "round_half_even ((18014398509481985 / 9007199254740992) / pow2 (1 - 52)) = 4503599627370496" by code_simp
    show "rat_of_int 4503599627370496 * pow2 (1 - 52) < pow2 1024" by (simp add: pow2_def)
  qed simp_all
  then show ?thesis by (simp add: pow2_def)
qed


lemma default_weights_two:
  "default_weights (Suc (Suc 0)) = Inr [fl (3 / 5), fl (2 / 5)]"
proof -
  have "float_of_int 1 = Inr (Finite 1)"
    by (simp add: float_of_int_def fl_one)
  moreover have "fdiv (fl (2 / 5)) (Finite 1) = Inr (fl (2 / 5))"
    by (simp add: fl_two_fifths fl_weight_quotient)
  ultimately show ?thesis
    by (simp add: default_weights_def)
qed

lemma weighted_terms_scenario:
  "weighted_terms [(\<lparr>w = Some ''Hello'', f = Some 10\<rparr>, fl (3 / 5)),
                   (\<lparr>w = Some ''hello'', f = Some 5\<rparr>, fl (2 / 5))] = Inr [Finite 6, Finite 2]"
proof -
  have "float_of_int 10 = Inr (Finite 10)" "float_of_int 5 = Inr (Finite 5)"
    using fl_ten fl_five by (simp_all add: float_of_int_def)
  moreover have "fmul (Finite 10) (fl (3 / 5)) = Finite 6"
    by (simp add: fl_three_fifths fl_first_product)
  moreover have "fmul (Finite 5) (fl (2 / 5)) = Finite 2"
    by (simp add: fl_two_fifths fl_second_product)
  ultimately show ?thesis
    by (simp add: get_f_def)
qed

lemma float_sum_scenario: "float_sum [Finite 6, Finite 2] = Finite 8"
  using fl_six fl_eight by (simp add: float_sum_def)

lemma merge_weighted_scenario:
  "merge_weighted_frequency [\<lparr>w = Some ''Hello'', f = Some 10\<rparr>, \<lparr>w = Some ''hello'', f = Some 5\<rparr>] None =
     Inr (Some \<lparr>w = Some ''Hello'', f = Some 8\<rparr>)"
proof -
  have "int_of_float (Finite 8) = Inr 8"
    by (simp add: int_of_float_def)
  then show ?thesis
    unfolding merge_weighted_frequency_def
    by (simp add: default_weights_two weighted_terms_scenario float_sum_scenario item_w_def
        del: weighted_terms.simps)
qed

lemma normalize_hello:
  "merge_normalize_word ''Hello'' = ''hello''" "merge_normalize_word ''hello'' = ''hello''"
  by code_simp+

text \<open>
  C8. For two entries the weights are 0.6 and 0.4, and merging the stores
  \<open>[{w: Hello, f: 10}]\<close> and \<open>[{w: hello, f: 5}]\<close> under \<open>weighted\<close> with
  \<open>min_freq = 1\<close> writes the single entry \<open>{w: Hello, f: 8}\<close>: the products round to
  6.0 and 2.0, their sum is 8.0, and the word is that of the first entry.
\<close>

theorem weighted_scenario:
  "default_weights 2 = Inr [fl (6 / 10), fl (4 / 10)] \<and>
   merge_dictionaries
     [EntryList [\<lparr>w = Some ''Hello'', f = Some 10\<rparr>], EntryList [\<lparr>w = Some ''hello'', f = Some 5\<rparr>]]
     True ''weighted'' 1 =
   Inr \<lparr>returned = True, written = Some [\<lparr>w = Some ''Hello'', f = Some 8\<rparr>]\<rparr>"
proof
  show "default_weights 2 = Inr [fl (6 / 10), fl (4 / 10)]"
    using default_weights_two by (simp add: numeral_2_eq_2)
  show "merge_dictionaries
     [EntryList [\<lparr>w = Some ''Hello'', f = Some 10\<rparr>], EntryList [\<lparr>w = Some ''hello'', f = Some 5\<rparr>]]
     True ''weighted'' 1 =
   Inr \<lparr>returned = True, written = Some [\<lparr>w = Some ''Hello'', f = Some 8\<rparr>]\<rparr>"
    using merge_weighted_scenario
    by (simp add: merge_dictionaries_def load_dictionary_def get_w_def
        normalize_hello merge_strategies_def sort_by_frequency_def get_f_def Let_def)
qed

section \<open>Properties of the merge run\<close>

lemma load_all_concat:
  "load_all input_files all_entries = all_entries @ concat (map load_dictionary input_files)"
  by (induction input_files arbitrary: all_entries) simp_all

lemma group_entries_Nil_empty [simp]: "group_entries [] word_groups = word_groups"
  by simp

lemma resolve_groups_Nil [simp]: "resolve_groups merge_func min_frequency [] acc = Inr acc"
  by simp

lemma normalize_a: "merge_normalize_word ''a'' = ''a''"
  by code_simp

lemma normalize_hello_key: "merge_normalize_word ''hello'' = ''hello''"
  by code_simp

text \<open>
  C1, as the code has it. When no entry is loaded from the input files the run returns
  \<open>False\<close> and writes nothing, for every strategy and every \<open>min_frequency\<close>. When
  entries are loaded and none is left after grouping, resolution and filtering, the run
  writes the empty list and returns \<open>True\<close>.
\<close>

theorem empty_input_is_failure:
  "(concat (map load_dictionary input_files) = [] \<longrightarrow>
      merge_dictionaries input_files writable strategy min_frequency =
        Inr \<lparr>returned = False, written = None\<rparr>) \<and>
   (concat (map load_dictionary input_files) \<noteq> [] \<longrightarrow>
    resolve_groups (merge_strategies strategy) min_frequency
      (group_entries (concat (map load_dictionary input_files)) []) [] = Inr [] \<longrightarrow>
      merge_dictionaries input_files True strategy min_frequency =
        Inr \<lparr>returned = True, written = Some []\<rparr>)"
  by (simp add: merge_dictionaries_def load_all_concat sort_by_frequency_def)

theorem empty_input_is_failure_witness:
  "merge_dictionaries [LoadError, NotAList, EntryList []] True ''sum'' 1 =
     Inr \<lparr>returned = False, written = None\<rparr> \<and>
   merge_dictionaries [EntryList [\<lparr>w = Some ''a'', f = Some 0\<rparr>]] True ''sum'' 1 =
     Inr \<lparr>returned = True, written = Some []\<rparr>"
  using empty_input_is_failure [of "[LoadError, NotAList, EntryList []]" True "''sum''" 1]
    empty_input_is_failure [of "[EntryList [\<lparr>w = Some ''a'', f = Some 0\<rparr>]]" True "''sum''" 1]
  by (simp add: load_dictionary_def get_w_def get_f_def normalize_a Let_def merge_strategies_def)

text \<open>
  C1 as stated fails: one entry of frequency 0 is filtered out by \<open>min_frequency = 1\<close>,
  and the run writes an empty list and returns \<open>True\<close>.
\<close>

theorem filtered_to_nothing_succeeds:
  "merge_dictionaries [EntryList [\<lparr>w = Some ''a'', f = Some 0\<rparr>]] True ''max'' 1 =
     Inr \<lparr>returned = True, written = Some []\<rparr>"
  by (simp add: merge_dictionaries_def load_dictionary_def get_w_def get_f_def normalize_a
      sort_by_frequency_def Let_def)

text \<open>
  C3, as the code has it. A strategy outside the four choices is rejected by the argument
  parser of \<open>main\<close>, which leaves with status 2 before any input is read; the merge
  function itself, given such a strategy, resolves groups as \<open>max\<close> does.
\<close>

theorem unknown_strategy_falls_back:
  assumes "strategy \<notin> set strategy_choices"
  shows "main (args\<lparr>strategy_arg := Some strategy\<rparr>) writable = Inr (2, None) \<and>
         merge_dictionaries input_files writable strategy min_frequency =
           merge_dictionaries input_files writable ''max'' min_frequency"
proof
  show "main (args\<lparr>strategy_arg := Some strategy\<rparr>) writable = Inr (2, None)"
    using assms by (simp add: main_def)
  have m: "merge_strategies strategy = merge_strategies ''max''"
    using assms by (auto simp: merge_strategies_def strategy_choices_def)
  show "merge_dictionaries input_files writable strategy min_frequency =
           merge_dictionaries input_files writable ''max'' min_frequency"
    by (simp only: merge_dictionaries_def m)
qed

theorem unknown_strategy_falls_back_witness:
  "''median'' \<notin> set strategy_choices \<and>
   main \<lparr>inputs = [Some (EntryList [\<lparr>w = Some ''hello'', f = Some 5\<rparr>])], output_given = True,
         strategy_arg = Some ''median'', min_freq_arg = None\<rparr> True = Inr (2, None) \<and>
   merge_dictionaries [EntryList [\<lparr>w = Some ''hello'', f = Some 5\<rparr>]] True ''median'' 1 =
     merge_dictionaries [EntryList [\<lparr>w = Some ''hello'', f = Some 5\<rparr>]] True ''max'' 1"
proof -
  have h: "''median'' \<notin> set strategy_choices"
    by (simp add: strategy_choices_def)
  show ?thesis
    using h unknown_strategy_falls_back [OF h,
        of "\<lparr>inputs = [Some (EntryList [\<lparr>w = Some ''hello'', f = Some 5\<rparr>])], output_given = True,
             strategy_arg = None, min_freq_arg = None\<rparr>" True
           "[EntryList [\<lparr>w = Some ''hello'', f = Some 5\<rparr>]]" 1]
    by simp
qed

text \<open>
  C3 as stated fails for the merge function: with the strategy \<open>median\<close> it processes
  the input and writes the output.
\<close>

theorem unknown_strategy_not_rejected:
  "merge_dictionaries [EntryList [\<lparr>w = Some ''hello'', f = Some 5\<rparr>]] True ''median'' 1 =
     Inr \<lparr>returned = True, written = Some [\<lparr>w = Some ''hello'', f = Some 5\<rparr>]\<rparr>"
  by (simp add: merge_dictionaries_def load_dictionary_def get_w_def get_f_def normalize_hello_key
      sort_by_frequency_def Let_def merge_strategies_def)

section \<open>Grouping and resolution\<close>

lemma normalize_samples:
  "merge_normalize_word ''a'' = ''a''"
  "merge_normalize_word ''A'' = ''a''"
  "merge_normalize_word ''b'' = ''b''"
  "merge_normalize_word ''Hello'' = ''hello''"
  "merge_normalize_word ''hello'' = ''hello''"
  "merge_normalize_word '' '' = []"
  by code_simp+

lemmas run_simps =
  merge_dictionaries_def load_dictionary_def get_w_def get_f_def Let_def merge_strategies_def
  sort_by_frequency_def normalize_samples merge_max_frequency_def merge_sum_frequency_def
  merge_avg_frequency_def item_w_def item_f_def

subsection \<open>The insertion-ordered dictionary\<close>

lemma upd_default_keys_present:
  "k \<in> set (map fst t) \<Longrightarrow> map fst (upd_default k d g t) = map fst t"
  by (induction t) force+

lemma upd_default_absent:
  "k \<notin> set (map fst t) \<Longrightarrow> upd_default k d g t = t @ [(k, g d)]"
  by (induction t) auto

lemma upd_default_present:
  "k \<in> set (map fst t) \<Longrightarrow> distinct (map fst t) \<Longrightarrow>
   upd_default k d g t = map (\<lambda>(k', v). (k', if k' = k then g v else v)) t"
proof (induction t)
  case Nil
  then show ?case by simp
next
  case (Cons p t)
  obtain k' v where p: "p = (k', v)" by (cases p)
  show ?case
  proof (cases "k = k'")
    case True
    then have "k \<notin> set (map fst t)" using Cons.prems(2) p by simp
    then have "map (\<lambda>(k', v). (k', if k' = k then g v else v)) t = t"
      by (induction t) auto
    then show ?thesis using True p by simp
  next
    case False
    then show ?thesis using Cons p by simp
  qed
qed

lemma upd_default_map_values:
  assumes "\<And>v. h (g v) = g' (h v)"
  shows "upd_default k (h d) g' (map (\<lambda>(k, v). (k, h v)) t) =
         map (\<lambda>(k, v). (k, h v)) (upd_default k d g t)"
  by (induction t) (auto simp: assms)

lemma in_upd_default:
  "(k', v') \<in> set (upd_default k d g t) \<Longrightarrow>
   (k', v') \<in> set t \<or> (k' = k \<and> (v' = g d \<or> (\<exists>v. (k, v) \<in> set t \<and> v' = g v)))"
  by (induction t) (auto split: if_splits)

subsection \<open>Grouping\<close>

lemma group_entries_append:
  "group_entries (xs @ ys) word_groups = group_entries ys (group_entries xs word_groups)"
  by (induction xs arbitrary: word_groups) (simp_all add: Let_def)

lemma group_entries_step:
  "group_entries (e # es) word_groups =
     (if get_w e = [] then group_entries es word_groups
      else group_entries es (upd_default (group_key e) [] (\<lambda>g. g @ [e]) word_groups))"
  by (simp add: Let_def group_key_def)

lemma group_entries_wordless:
  "group_entries all_entries word_groups =
   group_entries (filter (\<lambda>e. get_w e \<noteq> []) all_entries) word_groups"
  by (induction all_entries arbitrary: word_groups) (simp_all add: Let_def)

lemma members_snoc:
  "members k (xs @ [e]) =
     (if get_w e \<noteq> [] \<and> group_key e = k then members k xs @ [e] else members k xs)"
  by (simp add: members_def)

lemma members_Cons:
  "members k (e # xs) =
     (if get_w e \<noteq> [] \<and> group_key e = k then e # members k xs else members k xs)"
  by (simp add: members_def)

lemma members_empty_iff:
  "members k xs = [] \<longleftrightarrow> k \<notin> group_key ` {e \<in> set xs. get_w e \<noteq> []}"
  by (auto simp: members_def filter_empty_conv)

text \<open>What the grouping loop has built after reading \<open>xs\<close>.\<close>

lemma grouping_invariant_step:
  assumes d: "distinct (map fst G)"
    and k: "set (map fst G) = group_key ` {e \<in> set xs. get_w e \<noteq> []}"
    and c: "\<forall>(k, g) \<in> set G. g = members k xs"
    and e: "get_w e \<noteq> []"
  defines "G' \<equiv> upd_default (group_key e) [] (\<lambda>g. g @ [e]) G"
  shows "distinct (map fst G') \<and>
         set (map fst G') = group_key ` {x \<in> set (xs @ [e]). get_w x \<noteq> []} \<and>
         (\<forall>(k, g) \<in> set G'. g = members k (xs @ [e]))"
proof (cases "group_key e \<in> set (map fst G)")
  case True
  have G': "G' = map (\<lambda>(k', v). (k', if k' = group_key e then v @ [e] else v)) G"
    unfolding G'_def using True d by (rule upd_default_present)
  have keys: "map fst G' = map fst G"
    unfolding G'_def using True by (simp add: upd_default_keys_present)
  have "set (map fst G') = group_key ` {x \<in> set (xs @ [e]). get_w x \<noteq> []}"
    using True k e unfolding keys by auto
  moreover have "\<forall>(k, g) \<in> set G'. g = members k (xs @ [e])"
    using c e unfolding G' by (auto simp: members_snoc)
  ultimately show ?thesis using d keys by simp
next
  case False
  have G': "G' = G @ [(group_key e, [e])]"
    unfolding G'_def using False by (simp add: upd_default_absent)
  have none: "members (group_key e) xs = []"
    using False k by (simp add: members_empty_iff)
  have "distinct (map fst G')" using d False unfolding G' by simp
  moreover have "set (map fst G') = group_key ` {x \<in> set (xs @ [e]). get_w x \<noteq> []}"
    using k e unfolding G' by auto
  moreover have "\<forall>(k, g) \<in> set G'. g = members k (xs @ [e])"
  proof -
    have "g = members k' (xs @ [e])" if "(k', g) \<in> set G" for k' g
    proof -
      have "k' \<noteq> group_key e" using that False by force
      then show ?thesis using c that by (auto simp: members_snoc)
    qed
    then show ?thesis using none e unfolding G' by (auto simp: members_snoc)
  qed
  ultimately show ?thesis by simp
qed

lemma grouping_invariant:
  assumes "distinct (map fst G)"
    and "set (map fst G) = group_key ` {e \<in> set xs. get_w e \<noteq> []}"
    and "\<forall>(k, g) \<in> set G. g = members k xs"
  shows "distinct (map fst (group_entries ys G)) \<and>
         set (map fst (group_entries ys G)) = group_key ` {e \<in> set (xs @ ys). get_w e \<noteq> []} \<and>
         (\<forall>(k, g) \<in> set (group_entries ys G). g = members k (xs @ ys))"
  using assms
proof (induction ys arbitrary: G xs)
  case Nil
  then show ?case by simp
next
  case (Cons e ys)
  show ?case
  proof (cases "get_w e = []")
    case True
    have "set (map fst G) = group_key ` {x \<in> set (xs @ [e]). get_w x \<noteq> []}"
      using Cons.prems(2) True by auto
    moreover have "\<forall>(k, g) \<in> set G. g = members k (xs @ [e])"
      using Cons.prems(3) True by (simp add: members_snoc)
    ultimately show ?thesis
      using Cons.IH [of G "xs @ [e]"] Cons.prems(1) True
      by (simp add: group_entries_step del: group_entries.simps)
  next
    case False
    from grouping_invariant_step [OF Cons.prems False]
    show ?thesis
      using Cons.IH [of "upd_default (group_key e) [] (\<lambda>g. g @ [e]) G" "xs @ [e]"] False
      by (simp add: group_entries_step del: group_entries.simps)
  qed
qed

lemma groups_of_list:
  "distinct (map fst (group_entries xs [])) \<and>
   set (map fst (group_entries xs [])) = group_key ` {e \<in> set xs. get_w e \<noteq> []} \<and>
   (\<forall>(k, g) \<in> set (group_entries xs []). g = members k xs)"
  using grouping_invariant [of "[]" "[]" xs] by (simp add: members_def)

lemma group_entries_known_keys:
  assumes "distinct (map fst G)"
    and "\<forall>e \<in> set ys. get_w e \<noteq> [] \<longrightarrow> group_key e \<in> set (map fst G)"
  shows "group_entries ys G = map (\<lambda>(k, g). (k, g @ members k ys)) G"
  using assms
proof (induction ys arbitrary: G)
  case Nil
  then show ?case by (simp add: members_def)
next
  case (Cons e ys)
  show ?case
  proof (cases "get_w e = []")
    case True
    then show ?thesis using Cons
      by (simp add: group_entries_step members_Cons del: group_entries.simps)
  next
    case False
    let ?G = "upd_default (group_key e) [] (\<lambda>g. g @ [e]) G"
    have present: "group_key e \<in> set (map fst G)" using Cons.prems(2) False by simp
    have G': "?G = map (\<lambda>(k', v). (k', if k' = group_key e then v @ [e] else v)) G"
      using present Cons.prems(1) by (rule upd_default_present)
    have keys: "map fst ?G = map fst G"
      using present by (simp add: upd_default_keys_present)
    have "group_entries ys ?G = map (\<lambda>(k, g). (k, g @ members k ys)) ?G"
      using Cons.IH [of ?G] Cons.prems keys by simp
    also have "\<dots> = map (\<lambda>(k, g). (k, g @ members k (e # ys))) G"
      unfolding G' using False by (auto simp: members_Cons)
    finally show ?thesis using False
      by (simp add: group_entries_step del: group_entries.simps)
  qed
qed

lemma group_entries_twice:
  "group_entries (xs @ xs) [] = map (\<lambda>(k, g). (k, g @ g)) (group_entries xs [])"
proof -
  let ?G = "group_entries xs []"
  have inv: "distinct (map fst ?G)"
    "set (map fst ?G) = group_key ` {e \<in> set xs. get_w e \<noteq> []}"
    "\<forall>(k, g) \<in> set ?G. g = members k xs"
    using groups_of_list [of xs] by simp_all
  have "group_entries (xs @ xs) [] = group_entries xs ?G"
    by (simp add: group_entries_append)
  also have "\<dots> = map (\<lambda>(k, g). (k, g @ members k xs)) ?G"
    using inv(1,2) by (intro group_entries_known_keys) auto
  also have "\<dots> = map (\<lambda>(k, g). (k, g @ g)) ?G"
    using inv(3) by (intro map_cong) auto
  finally show ?thesis .
qed

subsection \<open>Resolution of a group read twice\<close>

lemma max_by_append:
  "max_by key b (xs @ ys) = max_by key (max_by key b xs) ys"
  by (induction xs arbitrary: b) simp_all

lemma max_by_ge:
  "key b \<le> key (max_by key b xs) \<and> (\<forall>x \<in> set xs. key x \<le> key (max_by key b xs))"
proof (induction xs arbitrary: b)
  case Nil
  then show ?case by simp
next
  case (Cons x xs)
  show ?case
    using Cons.IH [of "if key b < key x then x else b"] by (auto split: if_splits)
qed

lemma max_by_dominated:
  "\<forall>y \<in> set ys. key y \<le> key b \<Longrightarrow> max_by key b ys = b"
  by (induction ys) auto

lemma max_by_twice:
  "max_by key e (es @ e # es) = max_by key e es"
proof -
  have "\<forall>y \<in> set (e # es). key y \<le> key (max_by key e es)"
    using max_by_ge [of key e es] by simp
  then show ?thesis
    unfolding max_by_append by (rule max_by_dominated)
qed

lemma merge_max_frequency_twice:
  "g \<noteq> [] \<Longrightarrow> merge_max_frequency (g @ g) = merge_max_frequency g"
  by (cases g) (simp_all add: merge_max_frequency_def max_by_twice)

lemma merge_avg_frequency_twice:
  assumes "g \<noteq> []"
  shows "merge_avg_frequency (g @ g) = merge_avg_frequency g"
proof -
  obtain e es where g: "g = e # es" using assms by (cases g) auto
  define s where "s = sum_list (map get_f g)"
  define n where "n = int (length g)"
  have "n \<noteq> 0" using assms by (simp add: n_def)
  have "(2 * s) div (2 * n) = s div n" by simp
  moreover have "sum_list (map get_f (g @ g)) = 2 * s" by (simp add: s_def)
  moreover have "int (length (g @ g)) = 2 * n" by (simp add: n_def)
  ultimately have "sum_list (map get_f (g @ g)) div int (length (g @ g)) =
      sum_list (map get_f g) div int (length g)"
    by (simp only: s_def n_def)
  then show ?thesis
    unfolding merge_avg_frequency_def g by (simp only: list.case append_Cons Let_def)
qed

lemma entry_fields: "w e = Some word \<Longrightarrow> f e = Some v \<Longrightarrow> \<lparr>w = Some word, f = Some v\<rparr> = e"
  by (cases e) simp

lemma worded: "get_w e \<noteq> [] \<Longrightarrow> \<exists>word. w e = Some word"
  by (cases "w e") (simp_all add: get_w_def)

lemma merge_max_frequency_pair:
  assumes "get_w e \<noteq> []" and "f e \<noteq> None"
  shows "merge_max_frequency [e, e] = Inr (Some e)"
proof -
  obtain word where "w e = Some word"
    using assms(1) worded by blast
  moreover obtain v where "f e = Some v"
    using assms(2) by (cases "f e") auto
  ultimately show ?thesis
    by (simp add: merge_max_frequency_def item_w_def item_f_def entry_fields)
qed

lemma merge_avg_frequency_pair:
  assumes "get_w e \<noteq> []" and "f e \<noteq> None"
  shows "merge_avg_frequency [e, e] = Inr (Some e)"
proof -
  obtain word where "w e = Some word"
    using assms(1) worded by blast
  moreover obtain v where "f e = Some v"
    using assms(2) by (cases "f e") auto
  ultimately show ?thesis
    by (simp add: merge_avg_frequency_def item_w_def get_f_def entry_fields)
qed

lemma resolve_groups_twice:
  assumes "merge_func = merge_max_frequency \<or> merge_func = merge_avg_frequency"
    and "\<forall>(k, g) \<in> set G. g \<noteq> [] \<and> (\<forall>e \<in> set g. get_w e \<noteq> [] \<and> f e \<noteq> None)"
  shows "resolve_groups merge_func min_frequency (map (\<lambda>(k, g). (k, g @ g)) G) acc =
         resolve_groups merge_func min_frequency G acc"
  using assms(2)
proof (induction G arbitrary: acc)
  case Nil
  then show ?case by simp
next
  case (Cons p G)
  obtain k g where p: "p = (k, g)" by (cases p)
  have g: "g \<noteq> []" "\<forall>e \<in> set g. get_w e \<noteq> [] \<and> f e \<noteq> None"
    using Cons.prems p by auto
  have step: "(if 1 < length (g @ g) then merge_func (g @ g)
               else (case g @ g of [] \<Rightarrow> Inl IndexError | e # _ \<Rightarrow> Inr (Some e))) =
              (if 1 < length g then merge_func g
               else (case g of [] \<Rightarrow> Inl IndexError | e # _ \<Rightarrow> Inr (Some e)))"
  proof (cases "1 < length g")
    case True
    then show ?thesis
      using assms(1) g(1) merge_max_frequency_twice merge_avg_frequency_twice by auto
  next
    case False
    then obtain e where e: "g = [e]" using g(1) by (cases g) auto
    then have "merge_func [e, e] = Inr (Some e)"
      using assms(1) g(2) merge_max_frequency_pair merge_avg_frequency_pair by auto
    then show ?thesis using e by simp
  qed
  have rest: "\<forall>(k, g) \<in> set G. g \<noteq> [] \<and> (\<forall>e \<in> set g. get_w e \<noteq> [] \<and> f e \<noteq> None)"
    using Cons.prems by simp
  show ?case
    unfolding p using step Cons.IH [OF rest]
    by (simp split: sum.split option.split)
qed

lemma groups_nonempty_worded:
  "\<forall>(k, g) \<in> set (group_entries xs []). g \<noteq> [] \<and> (\<forall>e \<in> set g. e \<in> set xs \<and> get_w e \<noteq> [])"
proof -
  have inv: "set (map fst (group_entries xs [])) = group_key ` {e \<in> set xs. get_w e \<noteq> []}"
    "\<forall>(k, g) \<in> set (group_entries xs []). g = members k xs"
    using groups_of_list [of xs] by simp_all
  have "g \<noteq> [] \<and> (\<forall>e \<in> set g. e \<in> set xs \<and> get_w e \<noteq> [])"
    if "(k, g) \<in> set (group_entries xs [])" for k g
  proof -
    have g: "g = members k xs" using inv(2) that by auto
    have "k \<in> group_key ` {e \<in> set xs. get_w e \<noteq> []}"
      using inv(1) that by force
    then have "members k xs \<noteq> []" by (simp add: members_empty_iff)
    then show ?thesis using g by (auto simp: members_def)
  qed
  then show ?thesis by auto
qed

text \<open>
  C2. An Entry carries a frequency. For every list \<open>entries\<close> in which each entry with
  a non-empty word does, merging the store list \<open>[entries, entries]\<close> under \<open>max\<close> or
  under \<open>avg\<close> gives exactly the run that merging \<open>[entries]\<close> gives: the same value
  returned and the same ranked entries and frequencies written, for every
  \<open>min_frequency\<close>.
\<close>

theorem self_merge_idempotent:
  assumes "strategy = ''max'' \<or> strategy = ''avg''"
    and "\<forall>e \<in> set entries. get_w e \<noteq> [] \<longrightarrow> f e \<noteq> None"
  shows "merge_dictionaries [EntryList entries, EntryList entries] writable strategy min_frequency =
         merge_dictionaries [EntryList entries] writable strategy min_frequency"
proof -
  let ?G = "group_entries entries []"
  have func: "merge_strategies strategy = merge_max_frequency \<or>
              merge_strategies strategy = merge_avg_frequency"
    using assms(1) by (auto simp: merge_strategies_def)
  have good: "\<forall>(k, g) \<in> set ?G. g \<noteq> [] \<and> (\<forall>e \<in> set g. get_w e \<noteq> [] \<and> f e \<noteq> None)"
    using groups_nonempty_worded [of entries] assms(2) by fastforce
  have "resolve_groups (merge_strategies strategy) min_frequency
          (group_entries (entries @ entries) []) [] =
        resolve_groups (merge_strategies strategy) min_frequency ?G []"
    unfolding group_entries_twice using func good by (rule resolve_groups_twice)
  then show ?thesis
    by (simp add: merge_dictionaries_def load_dictionary_def)
qed

theorem self_merge_idempotent_witness:
  "(''max'' = ''max'' \<or> ''max'' = ''avg'') \<and>
   list_all (\<lambda>e. f e \<noteq> None)
     [\<lparr>w = Some ''Hello'', f = Some 10\<rparr>, \<lparr>w = Some ''b'', f = Some 7\<rparr>,
      \<lparr>w = Some ''hello'', f = Some 12\<rparr>] \<and>
   merge_dictionaries
     [EntryList [\<lparr>w = Some ''Hello'', f = Some 10\<rparr>, \<lparr>w = Some ''b'', f = Some 7\<rparr>,
                 \<lparr>w = Some ''hello'', f = Some 12\<rparr>],
      EntryList [\<lparr>w = Some ''Hello'', f = Some 10\<rparr>, \<lparr>w = Some ''b'', f = Some 7\<rparr>,
                 \<lparr>w = Some ''hello'', f = Some 12\<rparr>]] True ''max'' 1 =
   merge_dictionaries
     [EntryList [\<lparr>w = Some ''Hello'', f = Some 10\<rparr>, \<lparr>w = Some ''b'', f = Some 7\<rparr>,
                 \<lparr>w = Some ''hello'', f = Some 12\<rparr>]] True ''max'' 1 \<and>
   merge_dictionaries
     [EntryList [\<lparr>w = Some ''Hello'', f = Some 10\<rparr>, \<lparr>w = Some ''b'', f = Some 7\<rparr>,
                 \<lparr>w = Some ''hello'', f = Some 12\<rparr>]] True ''max'' 1 =
   Inr \<lparr>returned = True,
        written = Some [\<lparr>w = Some ''hello'', f = Some 12\<rparr>, \<lparr>w = Some ''b'', f = Some 7\<rparr>]\<rparr>"
proof -
  have h1: "''max'' = ''max'' \<or> ''max'' = ''avg''" by simp
  have h2: "\<forall>e \<in> set [\<lparr>w = Some ''Hello'', f = Some 10\<rparr>, \<lparr>w = Some ''b'', f = Some 7\<rparr>,
                \<lparr>w = Some ''hello'', f = Some 12\<rparr>]. get_w e \<noteq> [] \<longrightarrow> f e \<noteq> None"
    by simp
  have v: "merge_dictionaries
     [EntryList [\<lparr>w = Some ''Hello'', f = Some 10\<rparr>, \<lparr>w = Some ''b'', f = Some 7\<rparr>,
                 \<lparr>w = Some ''hello'', f = Some 12\<rparr>]] True ''max'' 1 =
   Inr \<lparr>returned = True,
        written = Some [\<lparr>w = Some ''hello'', f = Some 12\<rparr>, \<lparr>w = Some ''b'', f = Some 7\<rparr>]\<rparr>"
    by (simp add: run_simps)
  show ?thesis
    using v self_merge_idempotent [OF h1 h2, of True 1] by simp
qed

text \<open>
  Why the theorem asks for the frequencies. A record without the \<open>f\<close> key is no Entry,
  but the merge tool reads it: alone in its group it passes through as it is, and read
  twice it is a group of two, for which \<open>max\<close> raises \<open>KeyError\<close> and \<open>avg\<close> writes
  the frequency 0.
\<close>

lemma merge_without_frequency:
  "merge_dictionaries [EntryList [\<lparr>w = Some ''a'', f = None\<rparr>]] True ''max'' 1 =
     Inr \<lparr>returned = True, written = Some []\<rparr> \<and>
   merge_dictionaries [EntryList [\<lparr>w = Some ''a'', f = None\<rparr>],
                       EntryList [\<lparr>w = Some ''a'', f = None\<rparr>]] True ''max'' 1 =
     Inl KeyError \<and>
   merge_dictionaries [EntryList [\<lparr>w = Some ''a'', f = None\<rparr>]] True ''avg'' 0 =
     Inr \<lparr>returned = False, written = Some [\<lparr>w = Some ''a'', f = None\<rparr>]\<rparr> \<and>
   merge_dictionaries [EntryList [\<lparr>w = Some ''a'', f = None\<rparr>],
                       EntryList [\<lparr>w = Some ''a'', f = None\<rparr>]] True ''avg'' 0 =
     Inr \<lparr>returned = True, written = Some [\<lparr>w = Some ''a'', f = Some 0\<rparr>]\<rparr>"
  by (simp add: run_simps)

section \<open>Entries without a word\<close>

lemma max_by_mem: "max_by key b xs \<in> set (b # xs)"
  by (induction xs arbitrary: b) auto

lemma item_w_get_w: "item_w e = Inr word \<Longrightarrow> get_w e = word"
  by (cases "w e") (simp_all add: item_w_def get_w_def)

lemma merge_max_frequency_word:
  assumes "merge_max_frequency g = Inr (Some m)" and "\<forall>e \<in> set g. get_w e \<noteq> []"
  shows "get_w m \<noteq> []"
proof -
  obtain e es where g: "g = e # es"
    using assms(1) by (cases g) (simp_all add: merge_max_frequency_def)
  let ?x = "max_by get_f e es"
  obtain word where word: "item_w ?x = Inr word" and m: "w m = Some word"
    using assms(1) unfolding g merge_max_frequency_def
    by (auto simp: Let_def split: sum.splits)
  have "?x \<in> set g" using max_by_mem [of get_f e es] g by simp
  then have "get_w ?x \<noteq> []" using assms(2) by blast
  then show ?thesis using item_w_get_w [OF word] m by (simp add: get_w_def)
qed

lemma merge_sum_frequency_word:
  assumes "merge_sum_frequency g = Inr (Some m)" and "\<forall>e \<in> set g. get_w e \<noteq> []"
  shows "get_w m \<noteq> []"
proof -
  obtain e es where g: "g = e # es"
    using assms(1) by (cases g) (simp_all add: merge_sum_frequency_def)
  obtain word where word: "item_w e = Inr word" and m: "w m = Some word"
    using assms(1) unfolding g merge_sum_frequency_def
    by (auto simp: Let_def split: sum.splits)
  show ?thesis using item_w_get_w [OF word] m assms(2) g by (auto simp: get_w_def)
qed

lemma merge_avg_frequency_word:
  assumes "merge_avg_frequency g = Inr (Some m)" and "\<forall>e \<in> set g. get_w e \<noteq> []"
  shows "get_w m \<noteq> []"
proof -
  obtain e es where g: "g = e # es"
    using assms(1) by (cases g) (simp_all add: merge_avg_frequency_def)
  obtain word where word: "item_w e = Inr word" and m: "w m = Some word"
    using assms(1) unfolding g merge_avg_frequency_def
    by (auto simp: Let_def split: sum.splits)
  show ?thesis using item_w_get_w [OF word] m assms(2) g by (auto simp: get_w_def)
qed

lemma merge_weighted_frequency_word:
  assumes "merge_weighted_frequency g weights = Inr (Some m)" and "\<forall>e \<in> set g. get_w e \<noteq> []"
  shows "get_w m \<noteq> []"
proof -
  obtain e es where g: "g = e # es"
    using assms(1) by (cases g) (simp_all add: merge_weighted_frequency_def)
  obtain word where word: "item_w e = Inr word" and m: "w m = Some word"
    using assms(1) unfolding g merge_weighted_frequency_def
    by (auto split: sum.splits)
  show ?thesis using item_w_get_w [OF word] m assms(2) g by (auto simp: get_w_def)
qed

lemma merge_strategies_word:
  assumes "merge_strategies strategy g = Inr (Some m)" and "\<forall>e \<in> set g. get_w e \<noteq> []"
  shows "get_w m \<noteq> []"
  using assms merge_max_frequency_word merge_sum_frequency_word merge_avg_frequency_word
    merge_weighted_frequency_word
  by (auto simp: merge_strategies_def split: if_splits)

lemma resolve_groups_words:
  assumes "resolve_groups (merge_strategies strategy) min_frequency G acc = Inr out"
    and "\<forall>(k, g) \<in> set G. \<forall>e \<in> set g. get_w e \<noteq> []"
    and "\<forall>e \<in> set acc. get_w e \<noteq> []"
  shows "\<forall>e \<in> set out. get_w e \<noteq> []"
  using assms
proof (induction G arbitrary: acc)
  case Nil
  then show ?case by simp
next
  case (Cons p G)
  obtain k g where p: "p = (k, g)" by (cases p)
  have g: "\<forall>e \<in> set g. get_w e \<noteq> []" using Cons.prems(2) p by auto
  have rest: "\<forall>(k, g) \<in> set G. \<forall>e \<in> set g. get_w e \<noteq> []" using Cons.prems(2) by simp
  let ?r = "if 1 < length g then merge_strategies strategy g
            else (case g of [] \<Rightarrow> Inl IndexError | e # _ \<Rightarrow> Inr (Some e))"
  obtain merged where r: "?r = Inr merged"
    using Cons.prems(1) unfolding p by (cases ?r) simp_all
  let ?acc = "case merged of None \<Rightarrow> acc
              | Some m \<Rightarrow> if min_frequency \<le> get_f m then acc @ [m] else acc"
  have next_call: "resolve_groups (merge_strategies strategy) min_frequency G ?acc = Inr out"
    using Cons.prems(1) r unfolding p by simp
  have "get_w m \<noteq> []" if "merged = Some m" for m
  proof (cases "1 < length g")
    case True
    then show ?thesis using r that g merge_strategies_word by auto
  next
    case False
    then show ?thesis using r that g by (cases g) auto
  qed
  then have "\<forall>e \<in> set ?acc. get_w e \<noteq> []"
    using Cons.prems(3) by (cases merged) auto
  from Cons.IH [OF next_call rest this] show ?case .
qed

text \<open>
  C9, as the code has it. An entry whose word is absent or the empty string is passed
  over by the grouping loop: the groups are those of the input without such entries,
  every grouped entry has a non-empty word, and so has every entry written. The test is
  on the word itself, not on its normalized key.
\<close>

theorem wordless_entries_dropped:
  "group_entries all_entries word_groups =
     group_entries (filter (\<lambda>e. get_w e \<noteq> []) all_entries) word_groups \<and>
   (\<forall>(k, g) \<in> set (group_entries all_entries []). \<forall>e \<in> set g. get_w e \<noteq> []) \<and>
   (\<forall>r out. merge_dictionaries input_files writable strategy min_frequency = Inr r \<longrightarrow>
      written r = Some out \<longrightarrow> (\<forall>e \<in> set out. get_w e \<noteq> []))"
proof (intro conjI allI impI)
  show "group_entries all_entries word_groups =
     group_entries (filter (\<lambda>e. get_w e \<noteq> []) all_entries) word_groups"
    by (rule group_entries_wordless)
  show "\<forall>(k, g) \<in> set (group_entries all_entries []). \<forall>e \<in> set g. get_w e \<noteq> []"
    using groups_nonempty_worded [of all_entries] by fastforce
next
  fix r out
  assume run: "merge_dictionaries input_files writable strategy min_frequency = Inr r"
    and out: "written r = Some out"
  let ?all = "load_all input_files []"
  obtain merged where res: "resolve_groups (merge_strategies strategy) min_frequency
      (group_entries ?all []) [] = Inr merged" and sorted: "out = sort_by_frequency merged"
    using run out unfolding merge_dictionaries_def Let_def
    by (auto split: if_splits sum.splits)
  have "\<forall>(k, g) \<in> set (group_entries ?all []). \<forall>e \<in> set g. get_w e \<noteq> []"
    using groups_nonempty_worded [of ?all] by fastforce
  from resolve_groups_words [OF res this] have "\<forall>e \<in> set merged. get_w e \<noteq> []" by simp
  then show "\<forall>e \<in> set out. get_w e \<noteq> []"
    by (simp add: sorted sort_by_frequency_def)
qed

theorem wordless_entries_dropped_witness:
  "group_entries [\<lparr>w = None, f = Some 3\<rparr>, \<lparr>w = Some [], f = Some 4\<rparr>,
                  \<lparr>w = Some ''a'', f = Some 5\<rparr>] [] =
     group_entries [\<lparr>w = Some ''a'', f = Some 5\<rparr>] [] \<and>
   merge_dictionaries [EntryList [\<lparr>w = None, f = Some 3\<rparr>, \<lparr>w = Some [], f = Some 4\<rparr>,
                  \<lparr>w = Some ''a'', f = Some 5\<rparr>]] True ''max'' 1 =
     Inr \<lparr>returned = True, written = Some [\<lparr>w = Some ''a'', f = Some 5\<rparr>]\<rparr> \<and>
   get_w \<lparr>w = Some ''a'', f = Some 5\<rparr> \<noteq> []"
proof -
  let ?D = "[\<lparr>w = None, f = Some 3\<rparr>, \<lparr>w = Some [], f = Some 4\<rparr>, \<lparr>w = Some ''a'', f = Some 5\<rparr>]"
  have v: "merge_dictionaries [EntryList ?D] True ''max'' 1 =
     Inr \<lparr>returned = True, written = Some [\<lparr>w = Some ''a'', f = Some 5\<rparr>]\<rparr>"
    by (simp add: run_simps)
  show ?thesis
    using v wordless_entries_dropped [of ?D "[]" "[EntryList ?D]" True "''max''" 1]
    by (simp add: get_w_def)
qed

text \<open>
  C9 as stated fails: a word of one space is not empty, its key is the empty string, and
  the entry is grouped under that key and written.
\<close>

theorem whitespace_word_is_grouped:
  "merge_normalize_word '' '' = [] \<and>
   group_entries [\<lparr>w = Some '' '', f = Some 5\<rparr>] [] = [([], [\<lparr>w = Some '' '', f = Some 5\<rparr>])] \<and>
   merge_dictionaries [EntryList [\<lparr>w = Some '' '', f = Some 5\<rparr>]] True ''max'' 1 =
     Inr \<lparr>returned = True, written = Some [\<lparr>w = Some '' '', f = Some 5\<rparr>]\<rparr>"
  by (simp add: run_simps)

section \<open>Entries without a frequency in the merge\<close>

lemma with_frequency_simps [simp]:
  "get_f (with_frequency e) = get_f e"
  "get_w (with_frequency e) = get_w e"
  "item_w (with_frequency e) = item_w e"
  "w (with_frequency e) = w e"
  by (simp_all add: with_frequency_def get_f_def get_w_def item_w_def)

lemma with_frequency_id: "f e \<noteq> None \<Longrightarrow> with_frequency e = e"
  by (cases "f e") (simp_all add: with_frequency_def get_f_def)

lemma get_f_absent: "f e = None \<Longrightarrow> get_f e = 0"
  by (simp add: get_f_def)

lemma sum_with_frequency:
  "sum_list (map get_f (map with_frequency es)) = sum_list (map get_f es)"
  by (simp add: comp_def)

lemma merge_sum_frequency_absent:
  "merge_sum_frequency (map with_frequency entries) = merge_sum_frequency entries"
proof (cases entries)
  case Nil
  then show ?thesis by (simp add: merge_sum_frequency_def)
next
  case (Cons e es)
  have "sum_list (map get_f (map with_frequency (e # es))) = sum_list (map get_f (e # es))"
    by (rule sum_with_frequency)
  then show ?thesis
    unfolding Cons merge_sum_frequency_def by (simp add: comp_def)
qed

lemma merge_avg_frequency_absent:
  "merge_avg_frequency (map with_frequency entries) = merge_avg_frequency entries"
proof (cases entries)
  case Nil
  then show ?thesis by (simp add: merge_avg_frequency_def)
next
  case (Cons e es)
  have "sum_list (map get_f (map with_frequency (e # es))) = sum_list (map get_f (e # es))"
    by (rule sum_with_frequency)
  then show ?thesis
    unfolding Cons merge_avg_frequency_def by (simp add: comp_def)
qed

lemma weighted_terms_absent:
  "weighted_terms (zip (map with_frequency es) ws) = weighted_terms (zip es ws)"
proof (induction es arbitrary: ws)
  case Nil
  then show ?case by simp
next
  case (Cons e es)
  then show ?case by (cases ws) (simp_all split: sum.split)
qed

lemma merge_weighted_frequency_absent:
  "merge_weighted_frequency (map with_frequency entries) weights =
   merge_weighted_frequency entries weights"
proof (cases entries)
  case Nil
  then show ?thesis by (simp add: merge_weighted_frequency_def)
next
  case (Cons e es)
  have wt: "weighted_terms (zip (with_frequency e # map with_frequency es) ws) =
      weighted_terms (zip (e # es) ws)" for ws
    using weighted_terms_absent [of "e # es" ws] by simp
  show ?thesis
    unfolding Cons merge_weighted_frequency_def
    by (simp add: wt del: weighted_terms.simps cong: sum.case_cong option.case_cong)
qed

lemma group_entries_with_frequency:
  "group_entries (map with_frequency es) (map (\<lambda>(k, g). (k, map with_frequency g)) G) =
   map (\<lambda>(k, g). (k, map with_frequency g)) (group_entries es G)"
proof (induction es arbitrary: G)
  case Nil
  then show ?case by simp
next
  case (Cons e es)
  have "upd_default k (map with_frequency []) (\<lambda>g. g @ [with_frequency e])
          (map (\<lambda>(k, g). (k, map with_frequency g)) G) =
        map (\<lambda>(k, g). (k, map with_frequency g)) (upd_default k [] (\<lambda>g. g @ [e]) G)" for k
    by (rule upd_default_map_values) simp
  then show ?case using Cons.IH by (simp add: Let_def)
qed

lemma resolve_groups_with_frequency:
  assumes "\<And>g. merge_func (map with_frequency g) = merge_func g" and "1 \<le> min_frequency"
  shows "resolve_groups merge_func min_frequency (map (\<lambda>(k, g). (k, map with_frequency g)) G) acc =
         resolve_groups merge_func min_frequency G acc"
proof (induction G arbitrary: acc)
  case Nil
  then show ?case by simp
next
  case (Cons p G)
  obtain k g where p: "p = (k, g)" by (cases p)
  show ?case
  proof (cases "1 < length g")
    case True
    then show ?thesis unfolding p using Cons.IH assms(1) by (simp cong: sum.case_cong)
  next
    case False
    show ?thesis
    proof (cases g)
      case Nil
      then show ?thesis unfolding p by simp
    next
      case (Cons e es)
      then have g: "g = [e]" using False by simp
      show ?thesis
      proof (cases "f e")
        case None
        then have "\<not> min_frequency \<le> get_f e" using assms(2) by (simp add: get_f_absent)
        then show ?thesis unfolding p g using Cons.IH by simp
      next
        case (Some v)
        then have "with_frequency e = e" by (simp add: with_frequency_id)
        then show ?thesis unfolding p g using Cons.IH by simp
      qed
    qed
  qed
qed

lemma load_dictionary_with_frequencies:
  "load_dictionary (with_frequencies x) = map with_frequency (load_dictionary x)"
  by (cases x) (simp_all add: with_frequencies_def load_dictionary_def)

lemma load_all_with_frequencies:
  "load_all (map with_frequencies input_files) [] = map with_frequency (load_all input_files [])"
  by (simp add: load_all_concat load_dictionary_with_frequencies map_concat comp_def)

lemma merge_strategies_absent:
  assumes "strategy = ''sum'' \<or> strategy = ''avg'' \<or> strategy = ''weighted''"
  shows "merge_strategies strategy (map with_frequency g) = merge_strategies strategy g"
  using assms merge_sum_frequency_absent merge_avg_frequency_absent merge_weighted_frequency_absent
  by (auto simp: merge_strategies_def)

text \<open>
  C10. An entry without the frequency key counts as frequency 0: each of \<open>sum\<close>,
  \<open>avg\<close> and \<open>weighted\<close> resolves a group to the same result as for the group with
  the absent frequencies written out as 0, and the filter reads the entry as 0. So for
  these strategies and \<open>min_frequency\<close> at least 1, the run on any input files equals
  the run on the files with the absent frequencies written out as 0; and a lone entry
  without a frequency is dropped, the run returning \<open>True\<close> with an empty list.
\<close>

theorem absent_frequency_counts_as_zero:
  "merge_sum_frequency (map with_frequency entries) = merge_sum_frequency entries \<and>
   merge_avg_frequency (map with_frequency entries) = merge_avg_frequency entries \<and>
   merge_weighted_frequency (map with_frequency entries) None =
     merge_weighted_frequency entries None \<and>
   (min_frequency \<le> get_f (with_frequency e)) = (min_frequency \<le> get_f e) \<and>
   ((strategy = ''sum'' \<or> strategy = ''avg'' \<or> strategy = ''weighted'') \<longrightarrow>
    1 \<le> min_frequency \<longrightarrow>
      merge_dictionaries (map with_frequencies input_files) writable strategy min_frequency =
      merge_dictionaries input_files writable strategy min_frequency) \<and>
   (get_w e \<noteq> [] \<longrightarrow> f e = None \<longrightarrow> 1 \<le> min_frequency \<longrightarrow>
      merge_dictionaries [EntryList [e]] True strategy min_frequency =
        Inr \<lparr>returned = True, written = Some []\<rparr>)"
proof (intro conjI impI)
  assume s: "strategy = ''sum'' \<or> strategy = ''avg'' \<or> strategy = ''weighted''"
    and m: "1 \<le> min_frequency"
  let ?all = "load_all input_files []"
  have "group_entries (map with_frequency ?all) [] =
        map (\<lambda>(k, g). (k, map with_frequency g)) (group_entries ?all [])"
    using group_entries_with_frequency [of ?all "[]"] by simp
  moreover have "resolve_groups (merge_strategies strategy) min_frequency
          (map (\<lambda>(k, g). (k, map with_frequency g)) (group_entries ?all [])) [] =
        resolve_groups (merge_strategies strategy) min_frequency (group_entries ?all []) []"
    using merge_strategies_absent [OF s] m by (intro resolve_groups_with_frequency) auto
  ultimately show "merge_dictionaries (map with_frequencies input_files) writable strategy min_frequency =
      merge_dictionaries input_files writable strategy min_frequency"
    by (simp add: merge_dictionaries_def load_all_with_frequencies)
next
  assume "get_w e \<noteq> []" and "f e = None" and "1 \<le> min_frequency"
  then show "merge_dictionaries [EntryList [e]] True strategy min_frequency =
        Inr \<lparr>returned = True, written = Some []\<rparr>"
    by (simp add: merge_dictionaries_def load_dictionary_def Let_def get_f_absent
        sort_by_frequency_def)
qed (simp_all add: merge_sum_frequency_absent merge_avg_frequency_absent
    merge_weighted_frequency_absent)

theorem absent_frequency_counts_as_zero_witness:
  "(''sum'' = ''sum'' \<or> ''sum'' = ''avg'' \<or> ''sum'' = ''weighted'') \<and> (1::int) \<le> 1 \<and>
   merge_dictionaries
     [EntryList [\<lparr>w = Some ''a'', f = Some 0\<rparr>, \<lparr>w = Some ''A'', f = Some 4\<rparr>,
                 \<lparr>w = Some ''b'', f = Some 0\<rparr>]] True ''sum'' 1 =
   merge_dictionaries
     [EntryList [\<lparr>w = Some ''a'', f = None\<rparr>, \<lparr>w = Some ''A'', f = Some 4\<rparr>,
                 \<lparr>w = Some ''b'', f = None\<rparr>]] True ''sum'' 1 \<and>
   merge_dictionaries
     [EntryList [\<lparr>w = Some ''a'', f = None\<rparr>, \<lparr>w = Some ''A'', f = Some 4\<rparr>,
                 \<lparr>w = Some ''b'', f = None\<rparr>]] True ''sum'' 1 =
     Inr \<lparr>returned = True, written = Some [\<lparr>w = Some ''a'', f = Some 4\<rparr>]\<rparr> \<and>
   get_w \<lparr>w = Some ''b'', f = None\<rparr> \<noteq> [] \<and> f \<lparr>w = Some ''b'', f = None\<rparr> = None \<and>
   merge_dictionaries [EntryList [\<lparr>w = Some ''b'', f = None\<rparr>]] True ''sum'' 1 =
     Inr \<lparr>returned = True, written = Some []\<rparr>"
proof -
  have v: "merge_dictionaries
     [EntryList [\<lparr>w = Some ''a'', f = None\<rparr>, \<lparr>w = Some ''A'', f = Some 4\<rparr>,
                 \<lparr>w = Some ''b'', f = None\<rparr>]] True ''sum'' 1 =
     Inr \<lparr>returned = True, written = Some [\<lparr>w = Some ''a'', f = Some 4\<rparr>]\<rparr>"
    by (simp add: run_simps)
  show ?thesis
    using v absent_frequency_counts_as_zero [where strategy = "''sum''" and min_frequency = 1
        and writable = True and e = "\<lparr>w = Some ''b'', f = None\<rparr>"
        and input_files = "[EntryList [\<lparr>w = Some ''a'', f = None\<rparr>, \<lparr>w = Some ''A'', f = Some 4\<rparr>,
                 \<lparr>w = Some ''b'', f = None\<rparr>]]" and entries = "[]"]
    by (simp add: with_frequencies_def with_frequency_def get_f_def get_w_def)
qed

section \<open>Loading records\<close>

lemma opensubtitles_loop_map_filter:
  "opensubtitles_loop lines entries = entries @ List.map_filter opensubtitles_record lines"
  by (induction lines arbitrary: entries) (simp_all add: List.map_filter_simps split: option.split)

lemma wikipedia_loop_map_filter:
  "wikipedia_loop limit lines entries =
     take (max (nat limit) (length entries)) (entries @ List.map_filter wikipedia_record lines)"
proof (induction lines arbitrary: entries)
  case Nil
  then show ?case by (simp add: List.map_filter_simps)
next
  case (Cons line lines)
  show ?case
  proof (cases "limit \<le> int (length entries)")
    case True
    then have "max (nat limit) (length entries) = length entries" by simp
    then show ?thesis using True by simp
  next
    case False
    then have m: "max (nat limit) (length entries) = nat limit"
      "max (nat limit) (Suc (length entries)) = nat limit" by simp_all
    show ?thesis
      using False Cons.IH m
      by (auto simp: List.map_filter_simps take_Cons' split: option.split)
  qed
qed

lemma opensubtitles_record_accepts:
  "opensubtitles_record line \<noteq> None \<longleftrightarrow>
     2 \<le> length (split (strip line)) \<and> py_int (last (split (strip line))) \<noteq> None"
proof (cases "strip line = []")
  case True
  then show ?thesis by (simp add: opensubtitles_record_def split_def)
next
  case False
  then show ?thesis
    by (auto simp: opensubtitles_record_def Let_def split: option.splits)
qed

lemma wikipedia_record_accepts:
  "wikipedia_record line \<noteq> None \<longleftrightarrow>
     strip line \<noteq> [] \<and> 2 \<le> length (wikipedia_parts (strip line)) \<and>
     py_int (strip_chars [CHR 0x22] (strip (wikipedia_parts (strip line) ! 1))) \<noteq> None"
proof (cases "wikipedia_parts (strip line)")
  case Nil
  then show ?thesis by (simp add: wikipedia_record_def Let_def)
next
  case (Cons p0 ps)
  then show ?thesis
    by (cases ps) (auto simp: wikipedia_record_def Let_def split: option.splits)
qed

text \<open>
  C5, as the code has it. Each converter keeps, in source order, exactly the lines its
  record function accepts (the second one up to \<open>limit\<close> of them), so a rejected line
  is passed over and never ends the load. A line is accepted if and only if it has at
  least two fields and the frequency field is accepted by \<open>int\<close>: a negative number is.
  \<open>load_dictionary\<close> returns the records of a list-shaped document as they are.
\<close>

theorem malformed_records_skipped:
  "load_dictionary (EntryList data) = data \<and>
   convert_opensubtitles_to_json (Lines lines) True =
     \<lparr>returned = True, written = Some (List.map_filter opensubtitles_record lines)\<rparr> \<and>
   (opensubtitles_record line \<noteq> None \<longleftrightarrow>
     2 \<le> length (split (strip line)) \<and> py_int (last (split (strip line))) \<noteq> None) \<and>
   convert_wikipedia_to_json (Lines lines) limit True =
     \<lparr>returned = True,
      written = Some (take (nat limit) (List.map_filter wikipedia_record (skip_header lines)))\<rparr> \<and>
   (wikipedia_record line \<noteq> None \<longleftrightarrow>
     strip line \<noteq> [] \<and> 2 \<le> length (wikipedia_parts (strip line)) \<and>
     py_int (strip_chars [CHR 0x22] (strip (wikipedia_parts (strip line) ! 1))) \<noteq> None)"
  using opensubtitles_record_accepts [of line] wikipedia_record_accepts [of line]
  by (simp add: convert_opensubtitles_to_json_def convert_wikipedia_to_json_def
      opensubtitles_loop_map_filter wikipedia_loop_map_filter load_dictionary_def)

text \<open>
  C5 as stated fails: a record whose frequency is \<open>-5\<close> is accepted by both
  converters, with that frequency.
\<close>

theorem negative_frequency_accepted:
  "py_int ''-5'' = Some (- 5) \<and>
   convert_opensubtitles_to_json (Lines [''the 100'', ''word -5'', ''no number'']) True =
     \<lparr>returned = True,
      written = Some [\<lparr>w = Some ''the'', f = Some 100\<rparr>, \<lparr>w = Some ''word'', f = Some (- 5)\<rparr>]\<rparr> \<and>
   convert_wikipedia_to_json (Lines [''word,count'', ''the,100'', ''word,-5'', ''no,number'']) 10 True =
     \<lparr>returned = True,
      written = Some [\<lparr>w = Some ''the'', f = Some 100\<rparr>, \<lparr>w = Some ''word'', f = Some (- 5)\<rparr>]\<rparr>"
  by code_simp

end
